theory Spec2Isabelle
  imports Main "HOL-Library.AList" "HOL-Library.Sublist"
begin

section \<open>The vacancy scraper: data\<close>

text \<open>
  The repository holds the scraper twice: the single-file program \<^verbatim>\<open>src/main.go\<close> and the
  refactored program (\<^verbatim>\<open>src/unnamed/part_003\<close>) built on the packages \<^verbatim>\<open>api\<close>
  (\<^verbatim>\<open>src/api/main.go\<close>), \<^verbatim>\<open>config\<close> and \<^verbatim>\<open>storage\<close> (\<^verbatim>\<open>src/unnamed/part_004\<close>).
  Both are embedded here. Where both files declare a function of the same name, the one of
  the refactored program carries the suffix \<open>_r\<close>.

  A decoded JSON value (\<^verbatim>\<open>interface{}\<close> after \<^verbatim>\<open>json.Unmarshal\<close>) and a decoded JSON
  object (\<^verbatim>\<open>map[string]interface{}\<close>), the latter as an association list read with
  \<open>map_of\<close> and written with \<open>AList.update\<close>.
\<close>

datatype jvalue =
    JNull
  | JBool bool
  | JNumber int
  | JString string
  | JArray "jvalue list"
  | JObject "(string \<times> jvalue) list"

type_synonym vacancy_data = "(string \<times> jvalue) list"

text \<open>The fields of \<^verbatim>\<open>VacancySearchResponse\<close> that the programs read: \<^verbatim>\<open>pages\<close> and the
  \<^verbatim>\<open>id\<close> of every element of \<^verbatim>\<open>items\<close>.\<close>

record VacancySearchResponse =
  Pages :: int
  Items :: "string list"

text \<open>
  What one HTTP exchange can come to, in the order the programs test it: the request cannot be
  built (\<^verbatim>\<open>http.NewRequest\<close> fails), the transport fails (\<^verbatim>\<open>client.Do\<close> fails), or a
  response arrives with a status code and a body that cannot be read, cannot be parsed, or
  parses.
\<close>

datatype 'a body = Unreadable | Malformed | Parsed 'a

datatype 'a reply = RequestError | TransportError | Response nat "'a body"

text \<open>
  The errors of the package \<^verbatim>\<open>api\<close>, as far as a caller can tell them apart: the two
  sentinels that \<^verbatim>\<open>errors.Is\<close> finds wrapped in an error, and the other failures by their
  cause. Then the errors that \<^verbatim>\<open>processVacancy\<close> of the refactored program returns.
\<close>

datatype api_error =
    CreateRequestFailed
  | HTTPRequestFailed
  | ReadBodyFailed
  | ParseJSONFailed
  | UnexpectedStatusCode nat
  | ErrVacancyNotFound
  | ErrRateLimited

datatype proc_error =
    GetDetailsFailed api_error
  | InvalidDescription string
  | MongoInsertionError

text \<open>The lines the programs write to their loggers, one constructor per call site.\<close>

datatype logline =
    FailedToCreateRequest string
  | HttpGetError string
  | FailedToReadBody string
  | FailedToParseJSON string
  | NoValidDescription string
  | SkippedDuplicate string
  | InsertionError string
  | StoredSuccessfully string
  | NotFoundSkipping string
  | WillRetry nat string
  | UnexpectedStatus nat string
  | RetryableError string int
  | MaxRetriesReached string
  | UnknownError string
  | Retrying string int int proc_error
  | FailedAfterRetries string int proc_error
  | SearchPageFailed int api_error
  | PageRequestFailed int
  | PageFetchFailed int
  | PageReadFailed int
  | PageParseFailed int
  | PageHttpError int nat
  | PageUnexpectedStatus nat int
  | TotalPagesToFetch int
  | ProcessingPage int nat

text \<open>
  The effects of a run in the order they happen: a search for a page (one per pass of the
  page loop, also when the request cannot be built), a detail fetch for a vacancy (one per
  call of \<open>processVacancy\<close>, likewise), a call of \<^verbatim>\<open>UpdateOne\<close> with its document, a
  \<^verbatim>\<open>time.Sleep\<close> with its duration in seconds, a logged line.
\<close>

datatype event =
    SearchPage int
  | FetchDetail string
  | UpdateOne vacancy_data
  | Sleep nat
  | Log logline

text \<open>
  Everything outside the program: the digest (\<^verbatim>\<open>crypto/md5\<close> with \<^verbatim>\<open>hex.EncodeToString\<close>, a
  library function, taken as a parameter), the search endpoint by page index, the vacancy
  endpoint by the number of detail fetches made before and the vacancy id, and whether the
  store accepts an upsert, by the number of upserts made before and the document. Every
  iteration of the page loop asks for a page index it has not asked for before, so a reply
  by page index is a reply by call.
\<close>

record world =
  md5Hash :: "string \<Rightarrow> string"
  searchEndpoint :: "int \<Rightarrow> VacancySearchResponse reply"
  vacancyEndpoint :: "nat \<Rightarrow> string \<Rightarrow> vacancy_data reply"
  storeAccepts :: "nat \<Rightarrow> vacancy_data \<Rightarrow> bool"

text \<open>
  Everything the program holds or changes: the two in-memory sets loaded from the store at
  start, the counter of saved vacancies (an \<^verbatim>\<open>int64\<close> that a run cannot bring near its
  bound, so an \<open>int\<close>), the documents the store has accepted in order, the number of detail
  fetches and of upserts made, and the effects so far.
\<close>

record state =
  existingVacancyIDs :: "string set"
  existingDescriptionHashes :: "string set"
  savedCount :: int
  collection :: "vacancy_data list"
  detailCalls :: nat
  upsertCalls :: nat
  trace :: "event list"

definition emit :: "event \<Rightarrow> state \<Rightarrow> state" where
  "emit e s = s\<lparr>trace := trace s @ [e]\<rparr>"

text \<open>
  Go's \<^verbatim>\<open>int\<close> has 64 bits on the platform the programs are built for (\<^verbatim>\<open>GOARCH=amd64\<close>)
  and its arithmetic wraps around: the \<^verbatim>\<open>int\<close> that an integer result comes to. The page
  count of a search reply is any \<^verbatim>\<open>int\<close> the server sends, so \<^verbatim>\<open>totalPages-1\<close> is
  taken with the wrap. The variable \<open>page\<close> starts at 0 and grows by one per pass of the
  page loop; a run cannot bring it near the bound, and it is an \<open>int\<close> without one.
\<close>

definition int64 :: "int \<Rightarrow> int" where
  "int64 x = (x + 2 ^ 63) mod 2 ^ 64 - 2 ^ 63"

text \<open>\<^verbatim>\<open>vacancyData["description"].(string)\<close>: the string, when the field is there and is one.\<close>

definition descriptionString :: "vacancy_data \<Rightarrow> string option" where
  "descriptionString vacancyData =
     (case map_of vacancyData ''description'' of
        Some (JString description) \<Rightarrow> Some description
      | _ \<Rightarrow> None)"

text \<open>
  \<^verbatim>\<open>collection.UpdateOne\<close> with the filter on \<^verbatim>\<open>id\<close>, \<^verbatim>\<open>$set\<close> of the document and upsert
  switched on, as both programs call it: the store accepts the document or answers with an
  error (\<open>False\<close>).
\<close>

definition collectionUpdateOne :: "world \<Rightarrow> vacancy_data \<Rightarrow> state \<Rightarrow> bool \<times> state" where
  "collectionUpdateOne W vacancyData s =
     (let accepted = storeAccepts W (upsertCalls s) vacancyData;
          s1 = emit (UpdateOne vacancyData) (s\<lparr>upsertCalls := upsertCalls s + 1\<rparr>)
      in (accepted, if accepted then s1\<lparr>collection := collection s1 @ [vacancyData]\<rparr> else s1))"

section \<open>The single-file program (src/main.go)\<close>

definition MaxConcurrency :: nat where
  "MaxConcurrency = 10"

definition RetryDelay :: nat where
  "RetryDelay = 10"

definition MaxRetries :: int where
  "MaxRetries = 3"

datatype perr = ErrRetryable | ErrNonRetryable | ErrOther

text \<open>\<^verbatim>\<open>processVacancy\<close> of src/main.go; \<open>None\<close> is the \<^verbatim>\<open>nil\<close> error.\<close>

definition processVacancy :: "world \<Rightarrow> string \<Rightarrow> state \<Rightarrow> perr option \<times> state" where
  "processVacancy W vacancyID s0 =
     (let s = emit (FetchDetail vacancyID) (s0\<lparr>detailCalls := detailCalls s0 + 1\<rparr>) in
      case vacancyEndpoint W (detailCalls s0) vacancyID of
        RequestError \<Rightarrow> (Some ErrRetryable, emit (Log (FailedToCreateRequest vacancyID)) s)
      | TransportError \<Rightarrow> (Some ErrRetryable, emit (Log (HttpGetError vacancyID)) s)
      | Response code b \<Rightarrow>
          if code = 200 then
            (case b of
               Unreadable \<Rightarrow> (Some ErrRetryable, emit (Log (FailedToReadBody vacancyID)) s)
             | Malformed \<Rightarrow> (Some ErrNonRetryable, emit (Log (FailedToParseJSON vacancyID)) s)
             | Parsed vacancyData \<Rightarrow>
                 (case descriptionString vacancyData of
                    None \<Rightarrow> (Some ErrNonRetryable, emit (Log (NoValidDescription vacancyID)) s)
                  | Some description \<Rightarrow>
                      (let descriptionHash = md5Hash W description in
                       if descriptionHash \<in> existingDescriptionHashes s
                       then (None, emit (Log (SkippedDuplicate vacancyID)) s)
                       else
                         (let vacancyData' =
                                AList.update ''description_hash'' (JString descriptionHash) vacancyData
                          in case collectionUpdateOne W vacancyData' s of
                               (False, s1) \<Rightarrow> (Some ErrRetryable, emit (Log (InsertionError vacancyID)) s1)
                             | (True, s1) \<Rightarrow>
                                 (None,
                                  emit (Log (StoredSuccessfully vacancyID))
                                    (s1\<lparr>existingDescriptionHashes :=
                                          insert descriptionHash (existingDescriptionHashes s1)\<rparr>))))))
          else if code = 404 then (Some ErrNonRetryable, emit (Log (NotFoundSkipping vacancyID)) s)
          else if code = 403 \<or> code = 429 then (Some ErrRetryable, emit (Log (WillRetry code vacancyID)) s)
          else (Some ErrRetryable, emit (Log (UnexpectedStatus code vacancyID)) s))"

text \<open>
  The body of the goroutine that \<^verbatim>\<open>fetchVacancyDetails\<close> starts for one id, between taking and
  giving back its semaphore slot: the retry loop, entered with \<open>retries = 0\<close>. The branch for
  an error that is neither of the two sentinels is kept, though \<open>processVacancy\<close> returns no
  such error.
\<close>

function worker :: "world \<Rightarrow> string \<Rightarrow> int \<Rightarrow> state \<Rightarrow> state" where
  "worker W vacancyID retries s =
     (case processVacancy W vacancyID s of
        (Some ErrRetryable, s') \<Rightarrow>
          if retries < MaxRetries
          then worker W vacancyID (retries + 1)
                 (emit (Sleep RetryDelay) (emit (Log (RetryableError vacancyID (retries + 1))) s'))
          else emit (Log (MaxRetriesReached vacancyID)) s'
      | (Some ErrNonRetryable, s') \<Rightarrow> s'
      | (Some ErrOther, s') \<Rightarrow> emit (Log (UnknownError vacancyID)) s'
      | (None, s') \<Rightarrow> s'\<lparr>savedCount := savedCount s' + 1\<rparr>)"
  by pat_completeness auto
termination
  by (relation "measure (\<lambda>(W, vacancyID, retries, s). nat (MaxRetries - retries))") auto

text \<open>
  \<^verbatim>\<open>fetchVacancyDetails\<close>: one goroutine per id, at most \<open>MaxConcurrency\<close> of them past the
  semaphore at a time, and \<^verbatim>\<open>wg.Wait()\<close> for all of them. This function is the page under
  one schedule, the one on which the goroutines run one after another in the order of the
  ids; it is what the page loop below calls, and it decides nothing about goroutines that
  overlap. The goroutines are started together, and how they take their steps among each
  other is the subject of the sections on goroutines that overlap (the digests they share)
  and on the worker pool (the semaphore).
\<close>

fun fetchVacancyDetails :: "world \<Rightarrow> string list \<Rightarrow> state \<Rightarrow> state" where
  "fetchVacancyDetails W [] s = s"
| "fetchVacancyDetails W (vacancyID # vacancyIDs) s =
     fetchVacancyDetails W vacancyIDs (worker W vacancyID 0 s)"

text \<open>
  The page loop of \<^verbatim>\<open>fetchAndStoreVacancies\<close>: its variables \<open>page\<close> and \<open>totalPages\<close>,
  whether the loop has been left, and the state of the program.
\<close>

record loop =
  page :: int
  totalPages :: int
  exited :: bool
  st :: state

text \<open>
  One pass through the body of the \<^verbatim>\<open>for\<close> loop of \<^verbatim>\<open>fetchAndStoreVacancies\<close> in src/main.go.
  \<^verbatim>\<open>client.Do\<close> returns a response whenever it returns no error, so the branch for a
  \<^verbatim>\<open>nil\<close> response is never taken and is left out. \<^verbatim>\<open>fetchVacancyDetails\<close> always
  returns \<^verbatim>\<open>nil\<close>.
\<close>

definition fetchAndStoreVacancies_body :: "world \<Rightarrow> loop \<Rightarrow> loop" where
  "fetchAndStoreVacancies_body W l =
     (let s = emit (SearchPage (page l)) (st l) in
      case searchEndpoint W (page l) of
        RequestError \<Rightarrow>
          l\<lparr>page := page l + 1, st := emit (Log (PageRequestFailed (page l))) s\<rparr>
      | TransportError \<Rightarrow>
          l\<lparr>page := page l + 1, st := emit (Log (PageFetchFailed (page l))) s\<rparr>
      | Response code b \<Rightarrow>
          if code = 200 then
            (case b of
               Unreadable \<Rightarrow>
                 l\<lparr>page := page l + 1, st := emit (Log (PageReadFailed (page l))) s\<rparr>
             | Malformed \<Rightarrow>
                 l\<lparr>page := page l + 1, st := emit (Log (PageParseFailed (page l))) s\<rparr>
             | Parsed searchResp \<Rightarrow>
                 (let totalPages' = (if page l = 0 then Pages searchResp else totalPages l);
                      s1 = (if page l = 0 then emit (Log (TotalPagesToFetch totalPages')) s else s);
                      vacancyIDs = filter (\<lambda>ID. ID \<notin> existingVacancyIDs s1) (Items searchResp);
                      s2 = emit (Log (ProcessingPage (page l) (length vacancyIDs))) s1;
                      s3 = fetchVacancyDetails W vacancyIDs s2
                  in if page l \<ge> int64 (totalPages' - 1)
                     then l\<lparr>totalPages := totalPages', exited := True, st := s3\<rparr>
                     else l\<lparr>page := page l + 1, totalPages := totalPages', st := s3\<rparr>))
          else
            (let s1 = emit (Log (if code = 400 \<or> code = 403 \<or> code = 404
                                 then PageHttpError (page l) code
                                 else PageUnexpectedStatus code (page l))) s
             in if page l \<ge> int64 (totalPages l - 1)
                then l\<lparr>exited := True, st := s1\<rparr>
                else l\<lparr>page := page l + 1, st := s1\<rparr>))"

text \<open>
  The loop has no bound of its own: it is run for at most \<open>n\<close> passes, and \<open>exited\<close> of
  the result tells whether it was left within them (by \<^verbatim>\<open>break\<close>, after which the function
  returns \<^verbatim>\<open>nil\<close>).
\<close>

fun fetchAndStoreVacancies_loop :: "nat \<Rightarrow> world \<Rightarrow> loop \<Rightarrow> loop" where
  "fetchAndStoreVacancies_loop 0 W l = l"
| "fetchAndStoreVacancies_loop (Suc n) W l =
     (if exited l then l
      else fetchAndStoreVacancies_loop n W (fetchAndStoreVacancies_body W l))"

definition fetchAndStoreVacancies :: "nat \<Rightarrow> world \<Rightarrow> state \<Rightarrow> loop" where
  "fetchAndStoreVacancies n W s =
     fetchAndStoreVacancies_loop n W \<lparr>page = 0, totalPages = 0, exited = False, st = s\<rparr>"

section \<open>The refactored program (src/unnamed/part_003 with the packages api, config, storage)\<close>

subsection \<open>Package config\<close>

record AppConfig =
  cfgStartDate :: string
  cfgEndDate :: string
  cfgBearerToken :: string
  cfgMongoURI :: string
  cfgMaxRetries :: int
  cfgRetryDelay :: nat
  cfgConcurrency :: int
  cfgPerPage :: int
  cfgArea :: string
  cfgProfessionalRole :: string

text \<open>\<^verbatim>\<open>LoadConfig\<close>, given the two flags and the two environment variables it reads.\<close>

definition LoadConfig :: "string \<Rightarrow> string \<Rightarrow> string \<Rightarrow> string \<Rightarrow> AppConfig" where
  "LoadConfig from to bearerToken mongoURI =
     \<lparr>cfgStartDate = from, cfgEndDate = to, cfgBearerToken = bearerToken,
      cfgMongoURI = mongoURI, cfgMaxRetries = 3, cfgRetryDelay = 10, cfgConcurrency = 10,
      cfgPerPage = 100, cfgArea = ''113'', cfgProfessionalRole = ''96''\<rparr>"

subsection \<open>Package api\<close>

definition GetVacancyIDs :: "world \<Rightarrow> int \<Rightarrow> api_error + (string list \<times> int)" where
  "GetVacancyIDs W pg =
     (case searchEndpoint W pg of
        RequestError \<Rightarrow> Inl CreateRequestFailed
      | TransportError \<Rightarrow> Inl HTTPRequestFailed
      | Response code b \<Rightarrow>
          if code \<noteq> 200 then Inl (UnexpectedStatusCode code)
          else (case b of
                  Unreadable \<Rightarrow> Inl ReadBodyFailed
                | Malformed \<Rightarrow> Inl ParseJSONFailed
                | Parsed searchResp \<Rightarrow> Inr (Items searchResp, Pages searchResp)))"

definition GetVacancyDetails :: "world \<Rightarrow> nat \<Rightarrow> string \<Rightarrow> api_error + vacancy_data" where
  "GetVacancyDetails W n vacancyID =
     (case vacancyEndpoint W n vacancyID of
        RequestError \<Rightarrow> Inl CreateRequestFailed
      | TransportError \<Rightarrow> Inl HTTPRequestFailed
      | Response code b \<Rightarrow>
          if code = 200 then
            (case b of
               Unreadable \<Rightarrow> Inl ReadBodyFailed
             | Malformed \<Rightarrow> Inl ParseJSONFailed
             | Parsed data \<Rightarrow> Inr data)
          else if code = 404 then Inl ErrVacancyNotFound
          else if code = 403 \<or> code = 429 then Inl ErrRateLimited
          else Inl (UnexpectedStatusCode code))"

definition MD5Hash :: "world \<Rightarrow> string \<Rightarrow> string" where
  "MD5Hash W text = md5Hash W text"

subsection \<open>Package storage\<close>

definition VacancyExists :: "state \<Rightarrow> string \<Rightarrow> bool" where
  "VacancyExists s ID = (ID \<in> existingVacancyIDs s)"

definition DescriptionHashExists :: "state \<Rightarrow> string \<Rightarrow> bool" where
  "DescriptionHashExists s hash = (hash \<in> existingDescriptionHashes s)"

definition AddDescriptionHash :: "string \<Rightarrow> state \<Rightarrow> state" where
  "AddDescriptionHash hash s =
     s\<lparr>existingDescriptionHashes := insert hash (existingDescriptionHashes s)\<rparr>"

definition UpsertVacancy :: "world \<Rightarrow> vacancy_data \<Rightarrow> state \<Rightarrow> bool \<times> state" where
  "UpsertVacancy W data s = collectionUpdateOne W data s"

subsection \<open>The program\<close>

text \<open>
  \<^verbatim>\<open>main\<close> passes \<^verbatim>\<open>context.Background()\<close>, which is never cancelled: the \<^verbatim>\<open>ctx.Done()\<close>
  cases of the two \<^verbatim>\<open>select\<close> statements are never ready and are left out.
\<close>

definition processVacancy_r :: "world \<Rightarrow> string \<Rightarrow> state \<Rightarrow> proc_error option \<times> state" where
  "processVacancy_r W vacancyID s0 =
     (let s = emit (FetchDetail vacancyID) (s0\<lparr>detailCalls := detailCalls s0 + 1\<rparr>) in
      case GetVacancyDetails W (detailCalls s0) vacancyID of
        Inl err \<Rightarrow>
          if err = ErrVacancyNotFound
          then (None, emit (Log (NotFoundSkipping vacancyID)) s)
          else (Some (GetDetailsFailed err), s)
      | Inr data \<Rightarrow>
          (case descriptionString data of
             None \<Rightarrow> (Some (InvalidDescription vacancyID), s)
           | Some description \<Rightarrow>
               if description = [] then (Some (InvalidDescription vacancyID), s)
               else
                 (let descriptionHash = MD5Hash W description in
                  if DescriptionHashExists s descriptionHash
                  then (None, emit (Log (SkippedDuplicate vacancyID)) s)
                  else
                    (let data' = AList.update ''description_hash'' (JString descriptionHash) data
                     in case UpsertVacancy W data' s of
                          (False, s1) \<Rightarrow> (Some MongoInsertionError, s1)
                        | (True, s1) \<Rightarrow>
                            (let s2 = AddDescriptionHash descriptionHash s1;
                                 s3 = s2\<lparr>savedCount := savedCount s2 + 1\<rparr>
                             in (None, emit (Log (StoredSuccessfully vacancyID)) s3))))))"

text \<open>
  The body of the goroutine of \<^verbatim>\<open>fetchAndProcessVacancies\<close>: the \<^verbatim>\<open>for\<close> loop over
  \<open>retries\<close>, entered with \<open>retries = 0\<close>.
\<close>

function worker_r :: "world \<Rightarrow> int \<Rightarrow> nat \<Rightarrow> string \<Rightarrow> int \<Rightarrow> state \<Rightarrow> state" where
  "worker_r W maxRetries retryDelay vacancyID retries s =
     (if retries \<le> maxRetries then
        (case processVacancy_r W vacancyID s of
           (None, s') \<Rightarrow> s'
         | (Some err, s') \<Rightarrow>
             if retries < maxRetries
             then worker_r W maxRetries retryDelay vacancyID (retries + 1)
                    (emit (Sleep retryDelay)
                       (emit (Log (Retrying vacancyID (retries + 1) maxRetries err)) s'))
             else worker_r W maxRetries retryDelay vacancyID (retries + 1)
                    (emit (Log (FailedAfterRetries vacancyID maxRetries err)) s'))
      else s)"
  by pat_completeness auto
termination
  by (relation "measure (\<lambda>(W, maxRetries, retryDelay, vacancyID, retries, s).
                  nat (maxRetries + 1 - retries))") auto

text \<open>
  \<^verbatim>\<open>fetchAndProcessVacancies\<close>: a goroutine per id, started once a slot of the semaphore of
  capacity 10 is taken. As for the single-file program, this function is the page under the
  schedule on which the goroutines run one after another in the order of the ids; the other
  schedules are in the section on goroutines that overlap.
\<close>

fun fetchAndProcessVacancies :: "world \<Rightarrow> string list \<Rightarrow> int \<Rightarrow> nat \<Rightarrow> state \<Rightarrow> state" where
  "fetchAndProcessVacancies W [] maxRetries retryDelay s = s"
| "fetchAndProcessVacancies W (vacancyID # ids) maxRetries retryDelay s =
     fetchAndProcessVacancies W ids maxRetries retryDelay
       (worker_r W maxRetries retryDelay vacancyID 0 s)"

definition fetchAndStoreVacancies_r_body :: "world \<Rightarrow> AppConfig \<Rightarrow> loop \<Rightarrow> loop" where
  "fetchAndStoreVacancies_r_body W cfg l =
     (let s = emit (SearchPage (page l)) (st l) in
      case GetVacancyIDs W (page l) of
        Inl err \<Rightarrow>
          l\<lparr>page := page l + 1, st := emit (Log (SearchPageFailed (page l) err)) s\<rparr>
      | Inr (vacancyIDs, pages) \<Rightarrow>
          (let totalPages' = (if page l = 0 then pages else totalPages l);
               s1 = (if page l = 0 then emit (Log (TotalPagesToFetch totalPages')) s else s);
               newIDs = filter (\<lambda>ID. \<not> VacancyExists s1 ID) vacancyIDs;
               s2 = emit (Log (ProcessingPage (page l) (length newIDs))) s1;
               s3 = (if length newIDs > 0
                     then fetchAndProcessVacancies W newIDs (cfgMaxRetries cfg) (cfgRetryDelay cfg) s2
                     else s2)
           in if page l \<ge> int64 (totalPages' - 1)
              then l\<lparr>totalPages := totalPages', exited := True, st := s3\<rparr>
              else l\<lparr>page := page l + 1, totalPages := totalPages', st := s3\<rparr>))"

fun fetchAndStoreVacancies_r_loop :: "nat \<Rightarrow> world \<Rightarrow> AppConfig \<Rightarrow> loop \<Rightarrow> loop" where
  "fetchAndStoreVacancies_r_loop 0 W cfg l = l"
| "fetchAndStoreVacancies_r_loop (Suc n) W cfg l =
     (if exited l then l
      else fetchAndStoreVacancies_r_loop n W cfg (fetchAndStoreVacancies_r_body W cfg l))"

text \<open>
  \<^verbatim>\<open>fetchAndStoreVacancies\<close> of the refactored program starts its own counter at 0 and, when
  the loop is left, returns the counter with a \<^verbatim>\<open>nil\<close> error: \<open>savedCount (st l)\<close> of the
  result \<open>l\<close>.
\<close>

definition fetchAndStoreVacancies_r :: "nat \<Rightarrow> world \<Rightarrow> AppConfig \<Rightarrow> state \<Rightarrow> loop" where
  "fetchAndStoreVacancies_r n W cfg s =
     fetchAndStoreVacancies_r_loop n W cfg
       \<lparr>page = 0, totalPages = 0, exited = False, st = s\<lparr>savedCount := 0\<rparr>\<rparr>"

section \<open>Goroutines that overlap\<close>

text \<open>
  The goroutines of one page are started together, and the set of known digests is the one
  thing they share: between the test of a digest, the call of \<^verbatim>\<open>UpdateOne\<close> and the adding
  of the digest, other goroutines may take steps of their own. A call of \<open>processVacancy\<close>
  is therefore cut in three: up to and with the test of the digest, which either ends the
  call with its result or finds the digest unknown and goes on with the document and the
  digest; the call of \<^verbatim>\<open>UpdateOne\<close>; and the adding of the digest with the line that the
  vacancy was stored. The cuts are at the two places where the code leaves the shared set
  between reading and writing it (\<^verbatim>\<open>Exists\<close> and \<^verbatim>\<open>Add\<close> in src/main.go,
  \<^verbatim>\<open>DescriptionHashExists\<close> and \<^verbatim>\<open>AddDescriptionHash\<close> in the refactored program, each
  one locked operation); the fetch before the test and the count after the adding touch
  nothing that another goroutine tests, and go with the step next to them.
\<close>

datatype 'e tested = Returned "'e option" | Fresh vacancy_data string

definition processVacancy_test :: "world \<Rightarrow> string \<Rightarrow> state \<Rightarrow> perr tested \<times> state" where
  "processVacancy_test W vacancyID s0 =
     (let s = emit (FetchDetail vacancyID) (s0\<lparr>detailCalls := detailCalls s0 + 1\<rparr>) in
      case vacancyEndpoint W (detailCalls s0) vacancyID of
        RequestError \<Rightarrow>
          (Returned (Some ErrRetryable), emit (Log (FailedToCreateRequest vacancyID)) s)
      | TransportError \<Rightarrow> (Returned (Some ErrRetryable), emit (Log (HttpGetError vacancyID)) s)
      | Response code b \<Rightarrow>
          if code = 200 then
            (case b of
               Unreadable \<Rightarrow>
                 (Returned (Some ErrRetryable), emit (Log (FailedToReadBody vacancyID)) s)
             | Malformed \<Rightarrow>
                 (Returned (Some ErrNonRetryable), emit (Log (FailedToParseJSON vacancyID)) s)
             | Parsed vacancyData \<Rightarrow>
                 (case descriptionString vacancyData of
                    None \<Rightarrow>
                      (Returned (Some ErrNonRetryable),
                       emit (Log (NoValidDescription vacancyID)) s)
                  | Some description \<Rightarrow>
                      (let descriptionHash = md5Hash W description in
                       if descriptionHash \<in> existingDescriptionHashes s
                       then (Returned None, emit (Log (SkippedDuplicate vacancyID)) s)
                       else (Fresh (AList.update ''description_hash'' (JString descriptionHash)
                                      vacancyData) descriptionHash, s))))
          else if code = 404
          then (Returned (Some ErrNonRetryable), emit (Log (NotFoundSkipping vacancyID)) s)
          else if code = 403 \<or> code = 429
          then (Returned (Some ErrRetryable), emit (Log (WillRetry code vacancyID)) s)
          else (Returned (Some ErrRetryable), emit (Log (UnexpectedStatus code vacancyID)) s))"

definition processVacancy_update :: "world \<Rightarrow> string \<Rightarrow> vacancy_data \<Rightarrow> state \<Rightarrow> bool \<times> state" where
  "processVacancy_update W vacancyID vacancyData s =
     (case collectionUpdateOne W vacancyData s of
        (False, s1) \<Rightarrow> (False, emit (Log (InsertionError vacancyID)) s1)
      | (True, s1) \<Rightarrow> (True, s1))"

definition processVacancy_add :: "string \<Rightarrow> string \<Rightarrow> state \<Rightarrow> state" where
  "processVacancy_add vacancyID descriptionHash s =
     emit (Log (StoredSuccessfully vacancyID))
       (s\<lparr>existingDescriptionHashes := insert descriptionHash (existingDescriptionHashes s)\<rparr>)"

text \<open>The same three parts of \<open>processVacancy\<close> of the refactored program.\<close>

definition processVacancy_r_test :: "world \<Rightarrow> string \<Rightarrow> state \<Rightarrow> proc_error tested \<times> state" where
  "processVacancy_r_test W vacancyID s0 =
     (let s = emit (FetchDetail vacancyID) (s0\<lparr>detailCalls := detailCalls s0 + 1\<rparr>) in
      case GetVacancyDetails W (detailCalls s0) vacancyID of
        Inl err \<Rightarrow>
          if err = ErrVacancyNotFound
          then (Returned None, emit (Log (NotFoundSkipping vacancyID)) s)
          else (Returned (Some (GetDetailsFailed err)), s)
      | Inr data \<Rightarrow>
          (case descriptionString data of
             None \<Rightarrow> (Returned (Some (InvalidDescription vacancyID)), s)
           | Some description \<Rightarrow>
               if description = [] then (Returned (Some (InvalidDescription vacancyID)), s)
               else
                 (let descriptionHash = MD5Hash W description in
                  if DescriptionHashExists s descriptionHash
                  then (Returned None, emit (Log (SkippedDuplicate vacancyID)) s)
                  else (Fresh (AList.update ''description_hash'' (JString descriptionHash) data)
                          descriptionHash, s))))"

definition processVacancy_r_add :: "string \<Rightarrow> string \<Rightarrow> state \<Rightarrow> state" where
  "processVacancy_r_add vacancyID descriptionHash s =
     (let s2 = AddDescriptionHash descriptionHash s;
          s3 = s2\<lparr>savedCount := savedCount s2 + 1\<rparr>
      in emit (Log (StoredSuccessfully vacancyID)) s3)"

text \<open>
  Where a goroutine is: about to call \<open>processVacancy\<close> with its \<open>retries\<close>, inside the call
  and about to call \<^verbatim>\<open>UpdateOne\<close> with the document (and the digest to add afterwards),
  about to add the digest, about to sleep before the next call, or at its end.
\<close>

datatype gphase =
    AtCall int
  | AtUpdate int vacancy_data string
  | AtAdd int string
  | AtSleep int
  | AtEnd

text \<open>
  What the goroutine of \<^verbatim>\<open>fetchVacancyDetails\<close> (src/main.go) does with the result of a
  call, and one step of that goroutine on the state that all share; \<open>None\<close> at its end.
\<close>

definition afterCall :: "string \<Rightarrow> int \<Rightarrow> perr option \<Rightarrow> state \<Rightarrow> gphase \<times> state" where
  "afterCall vacancyID retries err s =
     (case err of
        Some ErrRetryable \<Rightarrow>
          if retries < MaxRetries
          then (AtSleep (retries + 1), emit (Log (RetryableError vacancyID (retries + 1))) s)
          else (AtEnd, emit (Log (MaxRetriesReached vacancyID)) s)
      | Some ErrNonRetryable \<Rightarrow> (AtEnd, s)
      | Some ErrOther \<Rightarrow> (AtEnd, emit (Log (UnknownError vacancyID)) s)
      | None \<Rightarrow> (AtEnd, s\<lparr>savedCount := savedCount s + 1\<rparr>))"

fun goroutine_step :: "world \<Rightarrow> string \<Rightarrow> gphase \<Rightarrow> state \<Rightarrow> (gphase \<times> state) option" where
  "goroutine_step W vacancyID (AtCall retries) s =
     (case processVacancy_test W vacancyID s of
        (Returned err, s1) \<Rightarrow> Some (afterCall vacancyID retries err s1)
      | (Fresh vacancyData descriptionHash, s1) \<Rightarrow>
          Some (AtUpdate retries vacancyData descriptionHash, s1))"
| "goroutine_step W vacancyID (AtUpdate retries vacancyData descriptionHash) s =
     (case processVacancy_update W vacancyID vacancyData s of
        (False, s1) \<Rightarrow> Some (afterCall vacancyID retries (Some ErrRetryable) s1)
      | (True, s1) \<Rightarrow> Some (AtAdd retries descriptionHash, s1))"
| "goroutine_step W vacancyID (AtAdd retries descriptionHash) s =
     Some (afterCall vacancyID retries None (processVacancy_add vacancyID descriptionHash s))"
| "goroutine_step W vacancyID (AtSleep retries) s =
     Some (AtCall retries, emit (Sleep RetryDelay) s)"
| "goroutine_step W vacancyID AtEnd s = None"

text \<open>The same for the goroutine of \<^verbatim>\<open>fetchAndProcessVacancies\<close> (refactored program).\<close>

definition afterCall_r ::
  "int \<Rightarrow> string \<Rightarrow> int \<Rightarrow> proc_error option \<Rightarrow> state \<Rightarrow> gphase \<times> state" where
  "afterCall_r maxRetries vacancyID retries err s =
     (case err of
        None \<Rightarrow> (AtEnd, s)
      | Some e \<Rightarrow>
          if retries < maxRetries
          then (AtSleep (retries + 1), emit (Log (Retrying vacancyID (retries + 1) maxRetries e)) s)
          else (AtEnd, emit (Log (FailedAfterRetries vacancyID maxRetries e)) s))"

fun goroutine_r_step ::
  "world \<Rightarrow> int \<Rightarrow> nat \<Rightarrow> string \<Rightarrow> gphase \<Rightarrow> state \<Rightarrow> (gphase \<times> state) option" where
  "goroutine_r_step W maxRetries retryDelay vacancyID (AtCall retries) s =
     (if retries \<le> maxRetries then
        (case processVacancy_r_test W vacancyID s of
           (Returned err, s1) \<Rightarrow> Some (afterCall_r maxRetries vacancyID retries err s1)
         | (Fresh data descriptionHash, s1) \<Rightarrow> Some (AtUpdate retries data descriptionHash, s1))
      else Some (AtEnd, s))"
| "goroutine_r_step W maxRetries retryDelay vacancyID (AtUpdate retries data descriptionHash) s =
     (case UpsertVacancy W data s of
        (False, s1) \<Rightarrow> Some (afterCall_r maxRetries vacancyID retries (Some MongoInsertionError) s1)
      | (True, s1) \<Rightarrow> Some (AtAdd retries descriptionHash, s1))"
| "goroutine_r_step W maxRetries retryDelay vacancyID (AtAdd retries descriptionHash) s =
     Some (afterCall_r maxRetries vacancyID retries None
             (processVacancy_r_add vacancyID descriptionHash s))"
| "goroutine_r_step W maxRetries retryDelay vacancyID (AtSleep retries) s =
     Some (AtCall retries, emit (Sleep retryDelay) s)"
| "goroutine_r_step W maxRetries retryDelay vacancyID AtEnd s = None"

text \<open>
  The goroutines of one page with the state they share, each past the semaphore (as all are
  at once for a page of at most ten new ids). A schedule names, step by step, the goroutine
  that takes the next step; it runs as long as the goroutine named is not at its end.
\<close>

record engine =
  goroutines :: "(string \<times> gphase) list"
  shared :: state

definition engine_init :: "string list \<Rightarrow> state \<Rightarrow> engine" where
  "engine_init ids s = \<lparr>goroutines = map (\<lambda>ID. (ID, AtCall 0)) ids, shared = s\<rparr>"

definition engine_step ::
  "(string \<Rightarrow> gphase \<Rightarrow> state \<Rightarrow> (gphase \<times> state) option) \<Rightarrow> nat \<Rightarrow> engine \<Rightarrow> engine option" where
  "engine_step step i e =
     (if i < length (goroutines e) then
        (case step (fst (goroutines e ! i)) (snd (goroutines e ! i)) (shared e) of
           None \<Rightarrow> None
         | Some (ph, s) \<Rightarrow>
             Some \<lparr>goroutines = (goroutines e)[i := (fst (goroutines e ! i), ph)], shared = s\<rparr>)
      else None)"

fun engine_run ::
  "(string \<Rightarrow> gphase \<Rightarrow> state \<Rightarrow> (gphase \<times> state) option) \<Rightarrow> nat list \<Rightarrow> engine \<Rightarrow> engine option" where
  "engine_run step [] e = Some e"
| "engine_run step (i # schedule) e =
     (case engine_step step i e of None \<Rightarrow> None | Some e' \<Rightarrow> engine_run step schedule e')"

section \<open>The worker pool\<close>

text \<open>
  Both programs bound the goroutines that fetch details with a buffered channel \<^verbatim>\<open>sem\<close> used
  as a counting semaphore: a send blocks while the buffer holds as many elements as its
  capacity, a receive takes one element out. A goroutine of the pool is waiting to send
  (\<open>Blocked\<close>, single-file program only), inside a call of \<open>processVacancy\<close> with its
  \<open>retries\<close> (\<open>Fetching\<close>), inside \<^verbatim>\<open>time.Sleep\<close> between two calls (\<open>Sleeping\<close>), or has
  returned and given its slot back through the deferred receive (\<open>Finished\<close>).
\<close>

datatype phase = Blocked | Fetching int | Sleeping int | Finished

record pool =
  pending :: "string list"
  workers :: "(string \<times> phase) list"
  sem :: nat

text \<open>
  The scheduler's choices: the \<^verbatim>\<open>for\<close> loop over the ids takes its next step, or the
  goroutine at an index takes one: its send on \<^verbatim>\<open>sem\<close> goes through, its call of
  \<open>processVacancy\<close> fails in a way that is retried, its sleep ends, or it returns.
\<close>

datatype action = Start | Acquire nat | Fail nat | Wake nat | Return nat

definition phaseAt :: "pool \<Rightarrow> nat \<Rightarrow> phase option" where
  "phaseAt p i = (if i < length (workers p) then Some (snd (workers p ! i)) else None)"

definition setPhase :: "nat \<Rightarrow> phase \<Rightarrow> pool \<Rightarrow> pool" where
  "setPhase i ph p = p\<lparr>workers := (workers p)[i := (fst (workers p ! i), ph)]\<rparr>"

text \<open>
  One step of \<^verbatim>\<open>fetchVacancyDetails\<close> (src/main.go) and its goroutines; \<open>None\<close> when the
  step cannot be taken. The loop starts a goroutine for the next id without waiting; the
  goroutine then sends on \<^verbatim>\<open>sem\<close>, of capacity \<open>MaxConcurrency\<close>.
\<close>

fun pool_step :: "action \<Rightarrow> pool \<Rightarrow> pool option" where
  "pool_step Start p =
     (case pending p of
        [] \<Rightarrow> None
      | vacancyID # ids \<Rightarrow> Some (p\<lparr>pending := ids, workers := workers p @ [(vacancyID, Blocked)]\<rparr>))"
| "pool_step (Acquire i) p =
     (case phaseAt p i of
        Some Blocked \<Rightarrow>
          if sem p < MaxConcurrency then Some ((setPhase i (Fetching 0) p)\<lparr>sem := sem p + 1\<rparr>)
          else None
      | _ \<Rightarrow> None)"
| "pool_step (Fail i) p =
     (case phaseAt p i of
        Some (Fetching retries) \<Rightarrow>
          if retries < MaxRetries then Some (setPhase i (Sleeping (retries + 1)) p) else None
      | _ \<Rightarrow> None)"
| "pool_step (Wake i) p =
     (case phaseAt p i of
        Some (Sleeping retries) \<Rightarrow> Some (setPhase i (Fetching retries) p)
      | _ \<Rightarrow> None)"
| "pool_step (Return i) p =
     (case phaseAt p i of
        Some (Fetching retries) \<Rightarrow>
          if 0 < sem p then Some ((setPhase i Finished p)\<lparr>sem := sem p - 1\<rparr>) else None
      | _ \<Rightarrow> None)"

text \<open>
  One step of \<^verbatim>\<open>fetchAndProcessVacancies\<close> (refactored program): the loop itself sends on
  \<^verbatim>\<open>sem\<close>, of capacity 10, and starts the goroutine for the next id once the send has gone
  through, so no goroutine is ever \<open>Blocked\<close>.
\<close>

fun pool_step_r :: "int \<Rightarrow> action \<Rightarrow> pool \<Rightarrow> pool option" where
  "pool_step_r maxRetries Start p =
     (case pending p of
        [] \<Rightarrow> None
      | vacancyID # ids \<Rightarrow>
          if sem p < 10
          then Some (p\<lparr>pending := ids, workers := workers p @ [(vacancyID, Fetching 0)],
                       sem := sem p + 1\<rparr>)
          else None)"
| "pool_step_r maxRetries (Acquire i) p = None"
| "pool_step_r maxRetries (Fail i) p =
     (case phaseAt p i of
        Some (Fetching retries) \<Rightarrow>
          if retries < maxRetries then Some (setPhase i (Sleeping (retries + 1)) p) else None
      | _ \<Rightarrow> None)"
| "pool_step_r maxRetries (Wake i) p =
     (case phaseAt p i of
        Some (Sleeping retries) \<Rightarrow> Some (setPhase i (Fetching retries) p)
      | _ \<Rightarrow> None)"
| "pool_step_r maxRetries (Return i) p =
     (case phaseAt p i of
        Some (Fetching retries) \<Rightarrow>
          if 0 < sem p then Some ((setPhase i Finished p)\<lparr>sem := sem p - 1\<rparr>) else None
      | _ \<Rightarrow> None)"

text \<open>A schedule is a list of choices; it runs as long as each step can be taken.\<close>

fun pool_run :: "(action \<Rightarrow> pool \<Rightarrow> pool option) \<Rightarrow> action list \<Rightarrow> pool \<Rightarrow> pool option" where
  "pool_run step [] p = Some p"
| "pool_run step (a # as) p =
     (case step a p of None \<Rightarrow> None | Some p' \<Rightarrow> pool_run step as p')"

definition pool_init :: "string list \<Rightarrow> pool" where
  "pool_init ids = \<lparr>pending = ids, workers = [], sem = 0\<rparr>"

fun fetching :: "string \<times> phase \<Rightarrow> bool" where
  "fetching (vacancyID, Fetching retries) = True"
| "fetching (vacancyID, ph) = False"

fun holding :: "string \<times> phase \<Rightarrow> bool" where
  "holding (vacancyID, Fetching retries) = True"
| "holding (vacancyID, Sleeping retries) = True"
| "holding (vacancyID, ph) = False"

text \<open>The detail fetches in flight, and the goroutines that hold a slot of the semaphore.\<close>

definition inFlight :: "pool \<Rightarrow> nat" where
  "inFlight p = length (filter fetching (workers p))"

definition slotsHeld :: "pool \<Rightarrow> nat" where
  "slotsHeld p = length (filter holding (workers p))"

section \<open>Vocabulary of the properties\<close>

text \<open>
  A reply to a detail fetch that the specification calls transient: a failure to build or send
  the request, a status other than 200, 404, 403 and 429, or a body of a 200 response that
  cannot be read.
\<close>

definition transient :: "'a reply \<Rightarrow> bool" where
  "transient r =
     (case r of
        RequestError \<Rightarrow> True
      | TransportError \<Rightarrow> True
      | Response code b \<Rightarrow>
          if code = 200 then (case b of Unreadable \<Rightarrow> True | _ \<Rightarrow> False)
          else code \<noteq> 404 \<and> code \<noteq> 403 \<and> code \<noteq> 429)"

text \<open>
  A reply to a search on which the loop of src/main.go logs, adds one to \<open>page\<close> and
  continues without looking at \<open>totalPages\<close> (\<open>pageSkipped\<close>), and a reply that is anything
  but status 200 with a body that parses (\<open>pageFailed\<close>).
\<close>

definition pageSkipped :: "'a reply \<Rightarrow> bool" where
  "pageSkipped r =
     (case r of
        RequestError \<Rightarrow> True
      | TransportError \<Rightarrow> True
      | Response code b \<Rightarrow> code = 200 \<and> (case b of Parsed x \<Rightarrow> False | _ \<Rightarrow> True))"

definition pageFailed :: "'a reply \<Rightarrow> bool" where
  "pageFailed r = (case r of Response code (Parsed x) \<Rightarrow> code \<noteq> 200 | _ \<Rightarrow> True)"

text \<open>The effects other than logged lines, the page indices searched for, in order, and the
  effects that a state \<open>s'\<close> has added to those of an earlier state \<open>s\<close>.\<close>

fun actions :: "event list \<Rightarrow> event list" where
  "actions [] = []"
| "actions (Log line # es) = actions es"
| "actions (e # es) = e # actions es"

fun searchCalls :: "event list \<Rightarrow> int list" where
  "searchCalls [] = []"
| "searchCalls (SearchPage p # es) = p # searchCalls es"
| "searchCalls (e # es) = searchCalls es"

definition since :: "state \<Rightarrow> state \<Rightarrow> event list" where
  "since s s' = drop (length (trace s)) (trace s')"

text \<open>What a detail fetch leaves alone: the set of known ids and the searches made.\<close>

definition untouched :: "state \<Rightarrow> state \<Rightarrow> bool" where
  "untouched s s' \<longleftrightarrow>
     existingVacancyIDs s' = existingVacancyIDs s \<and>
     searchCalls (trace s') = searchCalls (trace s)"

text \<open>The document that is sent to the store for a payload: the payload with its digest.\<close>

definition withHash :: "world \<Rightarrow> string \<Rightarrow> vacancy_data \<Rightarrow> vacancy_data" where
  "withHash W description vacancyData =
     AList.update ''description_hash'' (JString (md5Hash W description)) vacancyData"

text \<open>The counter and the number of documents in the store have risen together.\<close>

definition countsStored :: "state \<Rightarrow> state \<Rightarrow> bool" where
  "countsStored s s' \<longleftrightarrow>
     savedCount s' - int (length (collection s')) = savedCount s - int (length (collection s))"

section \<open>Concrete inputs\<close>

text \<open>
  A stand-in for the digest, a start with nothing stored, a detail payload with an id and a
  description, a search reply with a page count and ids, and a world made of a search
  endpoint and a vacancy endpoint, with a store that accepts every document.
\<close>

definition digest0 :: "string \<Rightarrow> string" where
  "digest0 t = ''md5:'' @ t"

definition state0 :: state where
  "state0 = \<lparr>existingVacancyIDs = {}, existingDescriptionHashes = {}, savedCount = 0,
              collection = [], detailCalls = 0, upsertCalls = 0, trace = []\<rparr>"

definition vacancy :: "string \<Rightarrow> string \<Rightarrow> vacancy_data" where
  "vacancy ID t = [(''id'', JString ID), (''description'', JString t)]"

definition pageOf :: "int \<Rightarrow> string list \<Rightarrow> VacancySearchResponse reply" where
  "pageOf n ids = Response 200 (Parsed \<lparr>Pages = n, Items = ids\<rparr>)"

definition mkWorld ::
  "(int \<Rightarrow> VacancySearchResponse reply) \<Rightarrow> (nat \<Rightarrow> string \<Rightarrow> vacancy_data reply) \<Rightarrow> world" where
  "mkWorld search detail =
     \<lparr>md5Hash = digest0, searchEndpoint = search, vacancyEndpoint = detail,
      storeAccepts = (\<lambda>n doc. True)\<rparr>"

text \<open>Every vacancy has the description \<open>''Go developer''\<close>; one page with the vacancy 7.\<close>

definition W_same :: world where
  "W_same = mkWorld (\<lambda>p. pageOf 1 [''7''])
                    (\<lambda>n ID. Response 200 (Parsed (vacancy ID ''Go developer'')))"

text \<open>
  The same vacancies with a store that takes the first document it is sent and refuses every
  later one, as a store with a unique index on \<^verbatim>\<open>description_hash\<close> (init-mongo.js) does with
  documents of one description under different ids.
\<close>

definition W_same_indexed :: world where
  "W_same_indexed = W_same\<lparr>storeAccepts := (\<lambda>n doc. n = 0)\<rparr>"


text \<open>A start at which the digest of that description is already known.\<close>

definition state_seen :: state where
  "state_seen = state0\<lparr>existingDescriptionHashes := {digest0 ''Go developer''}\<rparr>"

text \<open>Every vacancy has an empty description; every vacancy lacks the field.\<close>

definition W_blank :: world where
  "W_blank = mkWorld (\<lambda>p. pageOf 1 [''7''])
                     (\<lambda>n ID. Response 200 (Parsed (vacancy ID '''')))"

definition W_bare :: world where
  "W_bare = mkWorld (\<lambda>p. pageOf 1 [''7''])
                    (\<lambda>n ID. Response 200 (Parsed [(''id'', JString ID)]))"

text \<open>Every vacancy is gone (404).\<close>

definition W_gone :: world where
  "W_gone = mkWorld (\<lambda>p. pageOf 1 [''7'']) (\<lambda>n ID. Response 404 Unreadable)"

text \<open>The first two detail fetches meet status 500, the later ones succeed.\<close>

definition W_flaky :: world where
  "W_flaky = mkWorld (\<lambda>p. pageOf 1 [''7''])
                     (\<lambda>n ID. if n < 2 then Response 500 Unreadable
                             else Response 200 (Parsed (vacancy ID ''Go developer'')))"

text \<open>Three pages without vacancies; the same, with the transport failing on page 2.\<close>

definition W_three :: world where
  "W_three = mkWorld (\<lambda>p. pageOf 3 []) (\<lambda>n ID. Response 404 Unreadable)"

definition W_three_cut :: world where
  "W_three_cut = mkWorld (\<lambda>p. if p = 2 then TransportError else pageOf 3 [])
                         (\<lambda>n ID. Response 404 Unreadable)"

text \<open>Four pages without vacancies, with the transport failing on page 0; the same with
  status 500 on page 0.\<close>

definition W_late :: world where
  "W_late = mkWorld (\<lambda>p. if p = 0 then TransportError else pageOf 4 [])
                    (\<lambda>n ID. Response 404 Unreadable)"

definition W_refused :: world where
  "W_refused = mkWorld (\<lambda>p. if p = 0 then Response 500 Unreadable else pageOf 4 [])
                       (\<lambda>n ID. Response 404 Unreadable)"

text \<open>
  Twelve vacancies for the pool, a schedule that starts all twelve goroutines of
  \<^verbatim>\<open>fetchVacancyDetails\<close> and lets the first ten through the semaphore, the pool it leads
  to, and the same for \<^verbatim>\<open>fetchAndProcessVacancies\<close>, whose loop can start ten.
\<close>

definition twelve :: "string list" where
  "twelve = [''101'', ''102'', ''103'', ''104'', ''105'', ''106'',
             ''107'', ''108'', ''109'', ''110'', ''111'', ''112'']"

definition schedule12 :: "action list" where
  "schedule12 = replicate 12 Start @ map Acquire [0 ..< 10]"

definition pool12 :: pool where
  "pool12 = \<lparr>pending = [],
              workers = map (\<lambda>ID. (ID, Fetching 0)) (take 10 twelve) @
                        map (\<lambda>ID. (ID, Blocked)) (drop 10 twelve),
              sem = 10\<rparr>"

definition schedule12_r :: "action list" where
  "schedule12_r = replicate 10 Start"

definition pool12_r :: pool where
  "pool12_r = \<lparr>pending = drop 10 twelve,
                workers = map (\<lambda>ID. (ID, Fetching 0)) (take 10 twelve),
                sem = 10\<rparr>"

section \<open>Basic facts\<close>

declare worker.simps [simp del] worker_r.simps [simp del]

lemma emit_simps [simp]:
  "trace (emit e s) = trace s @ [e]"
  "existingVacancyIDs (emit e s) = existingVacancyIDs s"
  "existingDescriptionHashes (emit e s) = existingDescriptionHashes s"
  "savedCount (emit e s) = savedCount s"
  "collection (emit e s) = collection s"
  "detailCalls (emit e s) = detailCalls s"
  "upsertCalls (emit e s) = upsertCalls s"
  by (simp_all add: emit_def)

lemma actions_append [simp]: "actions (xs @ ys) = actions xs @ actions ys"
  by (induction xs rule: actions.induct) simp_all

lemma searchCalls_append [simp]: "searchCalls (xs @ ys) = searchCalls xs @ searchCalls ys"
  by (induction xs rule: searchCalls.induct) simp_all

subsection \<open>One call of processVacancy\<close>

lemma processVacancy_NotFound:
  assumes "vacancyEndpoint W (detailCalls s) k = Response 404 b"
  shows "processVacancy W k s =
           (Some ErrNonRetryable,
            s\<lparr>detailCalls := detailCalls s + 1,
              trace := trace s @ [FetchDetail k, Log (NotFoundSkipping k)]\<rparr>)"
  using assms by (simp add: processVacancy_def emit_def)

lemma processVacancy_r_NotFound:
  assumes "vacancyEndpoint W (detailCalls s) k = Response 404 b"
  shows "processVacancy_r W k s =
           (None,
            s\<lparr>detailCalls := detailCalls s + 1,
              trace := trace s @ [FetchDetail k, Log (NotFoundSkipping k)]\<rparr>)"
  using assms by (simp add: processVacancy_r_def GetVacancyDetails_def emit_def)

lemma processVacancy_transient:
  assumes "transient (vacancyEndpoint W (detailCalls s) k)"
  shows "\<exists>line. processVacancy W k s =
           (Some ErrRetryable,
            emit (Log line) (emit (FetchDetail k) (s\<lparr>detailCalls := detailCalls s + 1\<rparr>)))"
  using assms
  by (auto simp add: processVacancy_def transient_def split: reply.splits body.splits if_splits)

lemma processVacancy_r_transient:
  assumes "transient (vacancyEndpoint W (detailCalls s) k)"
  shows "\<exists>err. processVacancy_r W k s =
           (Some err, emit (FetchDetail k) (s\<lparr>detailCalls := detailCalls s + 1\<rparr>))"
  using assms
  by (auto simp add: processVacancy_r_def GetVacancyDetails_def transient_def
      split: reply.splits body.splits if_splits)

lemma processVacancy_stored:
  assumes "vacancyEndpoint W (detailCalls s) k = Response 200 (Parsed d)"
    and "descriptionString d = Some t"
    and "md5Hash W t \<notin> existingDescriptionHashes s"
    and "storeAccepts W (upsertCalls s) (withHash W t d)"
  shows "processVacancy W k s =
           (None,
            s\<lparr>detailCalls := detailCalls s + 1, upsertCalls := upsertCalls s + 1,
              collection := collection s @ [withHash W t d],
              existingDescriptionHashes := insert (md5Hash W t) (existingDescriptionHashes s),
              trace := trace s @ [FetchDetail k, UpdateOne (withHash W t d),
                                  Log (StoredSuccessfully k)]\<rparr>)"
  using assms
  by (simp add: processVacancy_def collectionUpdateOne_def withHash_def Let_def emit_def)

lemma processVacancy_r_stored:
  assumes "vacancyEndpoint W (detailCalls s) k = Response 200 (Parsed d)"
    and "descriptionString d = Some t" and "t \<noteq> []"
    and "md5Hash W t \<notin> existingDescriptionHashes s"
    and "storeAccepts W (upsertCalls s) (withHash W t d)"
  shows "processVacancy_r W k s =
           (None,
            s\<lparr>detailCalls := detailCalls s + 1, upsertCalls := upsertCalls s + 1,
              collection := collection s @ [withHash W t d],
              existingDescriptionHashes := insert (md5Hash W t) (existingDescriptionHashes s),
              savedCount := savedCount s + 1,
              trace := trace s @ [FetchDetail k, UpdateOne (withHash W t d),
                                  Log (StoredSuccessfully k)]\<rparr>)"
  using assms
  by (simp add: processVacancy_r_def GetVacancyDetails_def UpsertVacancy_def
      AddDescriptionHash_def DescriptionHashExists_def MD5Hash_def collectionUpdateOne_def
      withHash_def Let_def emit_def)



subsection \<open>The retry loops\<close>

lemma worker_retry:
  assumes "processVacancy W k s = (Some ErrRetryable, s1)" and "retries < MaxRetries"
  shows "worker W k retries s =
           worker W k (retries + 1)
             (emit (Sleep RetryDelay) (emit (Log (RetryableError k (retries + 1))) s1))"
  using assms by (simp add: worker.simps [of W k retries s])

lemma worker_saved:
  assumes "processVacancy W k s = (None, s1)"
  shows "worker W k retries s = s1\<lparr>savedCount := savedCount s1 + 1\<rparr>"
  using assms by (simp add: worker.simps [of W k retries s])

lemma worker_dropped:
  assumes "processVacancy W k s = (Some ErrNonRetryable, s1)"
  shows "worker W k retries s = s1"
  using assms by (simp add: worker.simps [of W k retries s])

lemma worker_r_retry:
  assumes "processVacancy_r W k s = (Some err, s1)" and "retries < maxRetries"
  shows "worker_r W maxRetries retryDelay k retries s =
           worker_r W maxRetries retryDelay k (retries + 1)
             (emit (Sleep retryDelay) (emit (Log (Retrying k (retries + 1) maxRetries err)) s1))"
  using assms by (simp add: worker_r.simps [of W maxRetries retryDelay k retries s])

lemma worker_r_done:
  assumes "processVacancy_r W k s = (None, s1)" and "retries \<le> maxRetries"
  shows "worker_r W maxRetries retryDelay k retries s = s1"
  using assms by (simp add: worker_r.simps [of W maxRetries retryDelay k retries s])

text \<open>
  A relation between the state before and the state after that holds across one call of
  \<open>processVacancy\<close>, across a logged line, a sleep and the counting of a saved vacancy, and
  that is transitive, holds across the whole retry loop and across all the ids of a page.
\<close>

lemma worker_rel:
  assumes pv: "\<And>s. R s (snd (processVacancy W k s))"
    and tr: "\<And>a b c. R a b \<Longrightarrow> R b c \<Longrightarrow> R a c"
    and lg: "\<And>s line. R s (emit (Log line) s)"
    and sl: "\<And>s d. R s (emit (Sleep d) s)"
    and sv: "\<And>s. R s (s\<lparr>savedCount := savedCount s + 1\<rparr>)"
  shows "R s (worker W k retries s)"
proof (induction "nat (MaxRetries - retries)" arbitrary: retries s rule: less_induct)
  case less
  obtain r s1 where p: "processVacancy W k s = (r, s1)"
    by (cases "processVacancy W k s")
  have u: "R s s1" using pv [of s] p by simp
  show ?case
  proof (cases "r = Some ErrRetryable \<and> retries < MaxRetries")
    case True
    let ?s2 = "emit (Sleep RetryDelay) (emit (Log (RetryableError k (retries + 1))) s1)"
    have "R ?s2 (worker W k (retries + 1) ?s2)"
      using True by (intro less) simp
    moreover have "R s ?s2"
      using u lg sl tr by blast
    moreover have "worker W k retries s = worker W k (retries + 1) ?s2"
      using True p by (simp add: worker.simps [of W k retries s])
    ultimately show ?thesis
      using tr by metis
  next
    case False
    have "worker W k retries s = s1 \<or> worker W k retries s = emit (Log (MaxRetriesReached k)) s1
       \<or> worker W k retries s = emit (Log (UnknownError k)) s1
       \<or> worker W k retries s = s1\<lparr>savedCount := savedCount s1 + 1\<rparr>"
      using False p
      by (auto simp add: worker.simps [of W k retries s] split: option.splits perr.splits)
    then show ?thesis
      using u lg sv tr by metis
  qed
qed

lemma worker_r_rel:
  assumes pv: "\<And>s. R s (snd (processVacancy_r W k s))"
    and tr: "\<And>a b c. R a b \<Longrightarrow> R b c \<Longrightarrow> R a c"
    and lg: "\<And>s line. R s (emit (Log line) s)"
    and sl: "\<And>s d. R s (emit (Sleep d) s)"
    and rf: "\<And>s. R s s"
  shows "R s (worker_r W maxRetries delay k retries s)"
proof (induction "nat (maxRetries + 1 - retries)" arbitrary: retries s rule: less_induct)
  case less
  obtain r s1 where p: "processVacancy_r W k s = (r, s1)"
    by (cases "processVacancy_r W k s")
  have u: "R s s1" using pv [of s] p by simp
  show ?case
  proof (cases "retries \<le> maxRetries")
    case out: False
    then show ?thesis by (simp add: worker_r.simps [of W maxRetries delay k retries s] rf)
  next
    case inb: True
    show ?thesis
    proof (cases r)
      case None
      then show ?thesis
        using inb p u by (simp add: worker_r.simps [of W maxRetries delay k retries s])
    next
      case (Some err)
      let ?s2 = "if retries < maxRetries
                 then emit (Sleep delay) (emit (Log (Retrying k (retries + 1) maxRetries err)) s1)
                 else emit (Log (FailedAfterRetries k maxRetries err)) s1"
      have "R ?s2 (worker_r W maxRetries delay k (retries + 1) ?s2)"
        using inb by (intro less) simp
      moreover have "R s ?s2"
        using u lg sl tr by (cases "retries < maxRetries") (simp; blast)+
      moreover have "worker_r W maxRetries delay k retries s =
                     worker_r W maxRetries delay k (retries + 1) ?s2"
        using inb p Some by (simp add: worker_r.simps [of W maxRetries delay k retries s])
      ultimately show ?thesis
        using tr by metis
    qed
  qed
qed

lemma fetchVacancyDetails_rel:
  assumes pv: "\<And>k s. R s (snd (processVacancy W k s))"
    and tr: "\<And>a b c. R a b \<Longrightarrow> R b c \<Longrightarrow> R a c"
    and lg: "\<And>s line. R s (emit (Log line) s)"
    and sl: "\<And>s d. R s (emit (Sleep d) s)"
    and sv: "\<And>s. R s (s\<lparr>savedCount := savedCount s + 1\<rparr>)"
    and rf: "\<And>s. R s s"
  shows "R s (fetchVacancyDetails W ids s)"
proof (induction ids arbitrary: s)
  case Nil
  show ?case by (simp add: rf)
next
  case (Cons k ids)
  have "R s (worker W k 0 s)"
    using pv tr lg sl sv by (rule worker_rel)
  then show ?case
    using Cons [of "worker W k 0 s"] tr by (simp; blast)
qed

lemma fetchAndProcessVacancies_rel:
  assumes pv: "\<And>k s. R s (snd (processVacancy_r W k s))"
    and tr: "\<And>a b c. R a b \<Longrightarrow> R b c \<Longrightarrow> R a c"
    and lg: "\<And>s line. R s (emit (Log line) s)"
    and sl: "\<And>s d. R s (emit (Sleep d) s)"
    and rf: "\<And>s. R s s"
  shows "R s (fetchAndProcessVacancies W ids maxRetries delay s)"
proof (induction ids arbitrary: s)
  case Nil
  show ?case by (simp add: rf)
next
  case (Cons k ids)
  have "R s (worker_r W maxRetries delay k 0 s)"
    using pv tr lg sl rf by (rule worker_r_rel)
  then show ?case
    using Cons [of "worker_r W maxRetries delay k 0 s"] tr by (simp; blast)
qed

subsection \<open>What the detail fetches leave alone\<close>

lemma untouched_trans: "untouched s s1 \<Longrightarrow> untouched s1 s2 \<Longrightarrow> untouched s s2"
  by (simp add: untouched_def)

lemma processVacancy_untouched: "untouched s (snd (processVacancy W k s))"
  by (auto simp add: processVacancy_def collectionUpdateOne_def Let_def untouched_def
      split: reply.splits body.splits option.splits)

lemma processVacancy_r_untouched: "untouched s (snd (processVacancy_r W k s))"
  by (auto simp add: processVacancy_r_def UpsertVacancy_def AddDescriptionHash_def
      collectionUpdateOne_def Let_def untouched_def
      split: sum.splits option.splits)

lemma fetchVacancyDetails_untouched: "untouched s (fetchVacancyDetails W ids s)"
proof (rule fetchVacancyDetails_rel)
  show "untouched a c" if "untouched a b" "untouched b c" for a b c
    using that by (rule untouched_trans)
qed (simp_all add: processVacancy_untouched, simp_all add: untouched_def)

lemma fetchAndProcessVacancies_untouched:
  "untouched s (fetchAndProcessVacancies W ids maxRetries delay s)"
proof (rule fetchAndProcessVacancies_rel)
  show "untouched a c" if "untouched a b" "untouched b c" for a b c
    using that by (rule untouched_trans)
qed (simp_all add: processVacancy_r_untouched, simp_all add: untouched_def)


section \<open>The retry engine, key by key\<close>

text \<open>
  C6. A key whose detail fetch is answered with status 404 gets exactly one fetch: the
  goroutine of either program adds to the state one detail fetch and the line that the vacancy
  was not found, and nothing else: no sleep, no second fetch, no call of the store, no change
  of the counter. In the refactored program the loop is entered at all only when \<open>maxRetries\<close>
  is not negative; \<^verbatim>\<open>LoadConfig\<close> sets it to 3.
\<close>

theorem C6_not_found_single_attempt:
  assumes "vacancyEndpoint W (detailCalls s) k = Response 404 b" and "0 \<le> maxRetries"
  shows "worker W k 0 s =
           s\<lparr>detailCalls := detailCalls s + 1,
             trace := trace s @ [FetchDetail k, Log (NotFoundSkipping k)]\<rparr>
         \<and> worker_r W maxRetries delay k 0 s =
           s\<lparr>detailCalls := detailCalls s + 1,
             trace := trace s @ [FetchDetail k, Log (NotFoundSkipping k)]\<rparr>"
  using assms
  by (simp add: worker_dropped [OF processVacancy_NotFound]
      worker_r_done [OF processVacancy_r_NotFound])

theorem C6_not_found_single_attempt_witness:
  "vacancyEndpoint W_gone (detailCalls state0) ''7'' = Response 404 Unreadable
   \<and> (0 :: int) \<le> 3
   \<and> trace (worker W_gone ''7'' 0 state0) = [FetchDetail ''7'', Log (NotFoundSkipping ''7'')]
   \<and> detailCalls (worker W_gone ''7'' 0 state0) = 1
   \<and> trace (worker_r W_gone 3 10 ''7'' 0 state0) = [FetchDetail ''7'', Log (NotFoundSkipping ''7'')]
   \<and> detailCalls (worker_r W_gone 3 10 ''7'' 0 state0) = 1"
  using C6_not_found_single_attempt [of W_gone state0 "''7''" Unreadable 3 10]
  by (simp add: W_gone_def mkWorld_def state0_def)


lemma worker_third_attempt:
  assumes t1: "transient (vacancyEndpoint W (detailCalls s) k)"
    and t2: "transient (vacancyEndpoint W (detailCalls s + 1) k)"
    and ok: "vacancyEndpoint W (detailCalls s + 2) k = Response 200 (Parsed d)"
    and ds: "descriptionString d = Some t"
    and fresh: "md5Hash W t \<notin> existingDescriptionHashes s"
    and acc: "storeAccepts W (upsertCalls s) (withHash W t d)"
  shows "\<exists>l1 l2. worker W k 0 s =
           s\<lparr>detailCalls := detailCalls s + 3, upsertCalls := upsertCalls s + 1,
             collection := collection s @ [withHash W t d],
             existingDescriptionHashes := insert (md5Hash W t) (existingDescriptionHashes s),
             savedCount := savedCount s + 1,
             trace := trace s @
               [FetchDetail k, Log l1, Log (RetryableError k 1), Sleep RetryDelay,
                FetchDetail k, Log l2, Log (RetryableError k 2), Sleep RetryDelay,
                FetchDetail k, UpdateOne (withHash W t d), Log (StoredSuccessfully k)]\<rparr>"
proof -
  obtain l1 where p1: "processVacancy W k s = (Some ErrRetryable,
      emit (Log l1) (emit (FetchDetail k) (s\<lparr>detailCalls := detailCalls s + 1\<rparr>)))"
    using processVacancy_transient [OF t1] by blast
  define s1 where "s1 = emit (Sleep RetryDelay) (emit (Log (RetryableError k 1))
      (emit (Log l1) (emit (FetchDetail k) (s\<lparr>detailCalls := detailCalls s + 1\<rparr>))))"
  have w1: "worker W k 0 s = worker W k 1 s1"
    using worker_retry [OF p1, of 0] by (simp add: s1_def MaxRetries_def)
  have dc1: "detailCalls s1 = detailCalls s + 1" by (simp add: s1_def)
  obtain l2 where p2: "processVacancy W k s1 = (Some ErrRetryable,
      emit (Log l2) (emit (FetchDetail k) (s1\<lparr>detailCalls := detailCalls s1 + 1\<rparr>)))"
    using processVacancy_transient [of W s1 k] t2 dc1 by auto
  define s2 where "s2 = emit (Sleep RetryDelay) (emit (Log (RetryableError k 2))
      (emit (Log l2) (emit (FetchDetail k) (s1\<lparr>detailCalls := detailCalls s1 + 1\<rparr>))))"
  have w2: "worker W k 1 s1 = worker W k 2 s2"
    using worker_retry [OF p2, of 1] by (simp add: s2_def MaxRetries_def)
  have f2: "detailCalls s2 = detailCalls s + 2" "upsertCalls s2 = upsertCalls s"
    "existingDescriptionHashes s2 = existingDescriptionHashes s"
    by (simp_all add: s2_def s1_def)
  have p3: "processVacancy W k s2 = (None,
      s2\<lparr>detailCalls := detailCalls s2 + 1, upsertCalls := upsertCalls s2 + 1,
         collection := collection s2 @ [withHash W t d],
         existingDescriptionHashes := insert (md5Hash W t) (existingDescriptionHashes s2),
         trace := trace s2 @ [FetchDetail k, UpdateOne (withHash W t d),
                              Log (StoredSuccessfully k)]\<rparr>)"
    using ok ds fresh acc f2 by (intro processVacancy_stored) simp_all
  have "worker W k 0 s =
      s\<lparr>detailCalls := detailCalls s + 3, upsertCalls := upsertCalls s + 1,
        collection := collection s @ [withHash W t d],
        existingDescriptionHashes := insert (md5Hash W t) (existingDescriptionHashes s),
        savedCount := savedCount s + 1,
        trace := trace s @
          [FetchDetail k, Log l1, Log (RetryableError k 1), Sleep RetryDelay,
           FetchDetail k, Log l2, Log (RetryableError k 2), Sleep RetryDelay,
           FetchDetail k, UpdateOne (withHash W t d), Log (StoredSuccessfully k)]\<rparr>"
    using worker_saved [OF p3, of 2] w1 w2 by (simp add: s2_def s1_def emit_def)
  then show ?thesis by blast
qed

lemma worker_r_third_attempt:
  assumes t1: "transient (vacancyEndpoint W (detailCalls s) k)"
    and t2: "transient (vacancyEndpoint W (detailCalls s + 1) k)"
    and ok: "vacancyEndpoint W (detailCalls s + 2) k = Response 200 (Parsed d)"
    and ds: "descriptionString d = Some t" and ne: "t \<noteq> []"
    and fresh: "md5Hash W t \<notin> existingDescriptionHashes s"
    and acc: "storeAccepts W (upsertCalls s) (withHash W t d)"
  shows "\<exists>e1 e2. worker_r W 3 delay k 0 s =
           s\<lparr>detailCalls := detailCalls s + 3, upsertCalls := upsertCalls s + 1,
             collection := collection s @ [withHash W t d],
             existingDescriptionHashes := insert (md5Hash W t) (existingDescriptionHashes s),
             savedCount := savedCount s + 1,
             trace := trace s @
               [FetchDetail k, Log (Retrying k 1 3 e1), Sleep delay,
                FetchDetail k, Log (Retrying k 2 3 e2), Sleep delay,
                FetchDetail k, UpdateOne (withHash W t d), Log (StoredSuccessfully k)]\<rparr>"
proof -
  obtain e1 where p1: "processVacancy_r W k s =
      (Some e1, emit (FetchDetail k) (s\<lparr>detailCalls := detailCalls s + 1\<rparr>))"
    using processVacancy_r_transient [OF t1] by blast
  define s1 where "s1 = emit (Sleep delay) (emit (Log (Retrying k 1 3 e1))
      (emit (FetchDetail k) (s\<lparr>detailCalls := detailCalls s + 1\<rparr>)))"
  have w1: "worker_r W 3 delay k 0 s = worker_r W 3 delay k 1 s1"
    using worker_r_retry [OF p1, of 0 3 delay] by (simp add: s1_def)
  have dc1: "detailCalls s1 = detailCalls s + 1" by (simp add: s1_def)
  obtain e2 where p2: "processVacancy_r W k s1 =
      (Some e2, emit (FetchDetail k) (s1\<lparr>detailCalls := detailCalls s1 + 1\<rparr>))"
    using processVacancy_r_transient [of W s1 k] t2 dc1 by auto
  define s2 where "s2 = emit (Sleep delay) (emit (Log (Retrying k 2 3 e2))
      (emit (FetchDetail k) (s1\<lparr>detailCalls := detailCalls s1 + 1\<rparr>)))"
  have w2: "worker_r W 3 delay k 1 s1 = worker_r W 3 delay k 2 s2"
    using worker_r_retry [OF p2, of 1 3 delay] by (simp add: s2_def)
  have f2: "detailCalls s2 = detailCalls s + 2" "upsertCalls s2 = upsertCalls s"
    "existingDescriptionHashes s2 = existingDescriptionHashes s"
    by (simp_all add: s2_def s1_def)
  have p3: "processVacancy_r W k s2 = (None,
      s2\<lparr>detailCalls := detailCalls s2 + 1, upsertCalls := upsertCalls s2 + 1,
         collection := collection s2 @ [withHash W t d],
         existingDescriptionHashes := insert (md5Hash W t) (existingDescriptionHashes s2),
         savedCount := savedCount s2 + 1,
         trace := trace s2 @ [FetchDetail k, UpdateOne (withHash W t d),
                              Log (StoredSuccessfully k)]\<rparr>)"
    using ok ds ne fresh acc f2 by (intro processVacancy_r_stored) simp_all
  have "worker_r W 3 delay k 0 s =
      s\<lparr>detailCalls := detailCalls s + 3, upsertCalls := upsertCalls s + 1,
        collection := collection s @ [withHash W t d],
        existingDescriptionHashes := insert (md5Hash W t) (existingDescriptionHashes s),
        savedCount := savedCount s + 1,
        trace := trace s @
          [FetchDetail k, Log (Retrying k 1 3 e1), Sleep delay,
           FetchDetail k, Log (Retrying k 2 3 e2), Sleep delay,
           FetchDetail k, UpdateOne (withHash W t d), Log (StoredSuccessfully k)]\<rparr>"
    using worker_r_done [OF p3, of 2 3 delay] w1 w2 by (simp add: s2_def s1_def emit_def)
  then show ?thesis by blast
qed

text \<open>
  C7. A key whose first two detail fetches meet a transient failure and whose third fetch
  succeeds, with three retries allowed (\<open>MaxRetries\<close> of src/main.go, \<open>maxRetries = 3\<close> in the
  refactored program): the goroutine makes exactly three fetches with a sleep of the retry
  delay between consecutive ones, then one call of the store, and ends with the line that the
  vacancy was stored; the store holds one more document and the counter is one higher. That
  the third fetch succeeds is read as: it is answered with status 200 and a payload whose
  description is a string (not empty, for the refactored program, which rejects an empty
  one) with a digest that is not known yet, and the store accepts the document.
\<close>

theorem C7_two_transient_then_stored:
  assumes "transient (vacancyEndpoint W (detailCalls s) k)"
    and "transient (vacancyEndpoint W (detailCalls s + 1) k)"
    and "vacancyEndpoint W (detailCalls s + 2) k = Response 200 (Parsed d)"
    and "descriptionString d = Some t"
    and "md5Hash W t \<notin> existingDescriptionHashes s"
    and "storeAccepts W (upsertCalls s) (withHash W t d)"
  shows "(actions (since s (worker W k 0 s)) =
            [FetchDetail k, Sleep RetryDelay, FetchDetail k, Sleep RetryDelay, FetchDetail k,
             UpdateOne (withHash W t d)]
          \<and> last (trace (worker W k 0 s)) = Log (StoredSuccessfully k)
          \<and> detailCalls (worker W k 0 s) = detailCalls s + 3
          \<and> collection (worker W k 0 s) = collection s @ [withHash W t d]
          \<and> savedCount (worker W k 0 s) = savedCount s + 1)
       \<and> (t \<noteq> [] \<longrightarrow>
            actions (since s (worker_r W 3 delay k 0 s)) =
              [FetchDetail k, Sleep delay, FetchDetail k, Sleep delay, FetchDetail k,
               UpdateOne (withHash W t d)]
            \<and> last (trace (worker_r W 3 delay k 0 s)) = Log (StoredSuccessfully k)
            \<and> detailCalls (worker_r W 3 delay k 0 s) = detailCalls s + 3
            \<and> collection (worker_r W 3 delay k 0 s) = collection s @ [withHash W t d]
            \<and> savedCount (worker_r W 3 delay k 0 s) = savedCount s + 1)"
proof (intro conjI impI)
  obtain l1 l2 where w: "worker W k 0 s =
      s\<lparr>detailCalls := detailCalls s + 3, upsertCalls := upsertCalls s + 1,
        collection := collection s @ [withHash W t d],
        existingDescriptionHashes := insert (md5Hash W t) (existingDescriptionHashes s),
        savedCount := savedCount s + 1,
        trace := trace s @
          [FetchDetail k, Log l1, Log (RetryableError k 1), Sleep RetryDelay,
           FetchDetail k, Log l2, Log (RetryableError k 2), Sleep RetryDelay,
           FetchDetail k, UpdateOne (withHash W t d), Log (StoredSuccessfully k)]\<rparr>"
    using worker_third_attempt [OF assms] by blast
  show "actions (since s (worker W k 0 s)) =
            [FetchDetail k, Sleep RetryDelay, FetchDetail k, Sleep RetryDelay, FetchDetail k,
             UpdateOne (withHash W t d)]"
    and "last (trace (worker W k 0 s)) = Log (StoredSuccessfully k)"
    and "detailCalls (worker W k 0 s) = detailCalls s + 3"
    and "collection (worker W k 0 s) = collection s @ [withHash W t d]"
    and "savedCount (worker W k 0 s) = savedCount s + 1"
    by (simp_all add: w since_def)
next
  assume ne: "t \<noteq> []"
  obtain e1 e2 where w: "worker_r W 3 delay k 0 s =
      s\<lparr>detailCalls := detailCalls s + 3, upsertCalls := upsertCalls s + 1,
        collection := collection s @ [withHash W t d],
        existingDescriptionHashes := insert (md5Hash W t) (existingDescriptionHashes s),
        savedCount := savedCount s + 1,
        trace := trace s @
          [FetchDetail k, Log (Retrying k 1 3 e1), Sleep delay,
           FetchDetail k, Log (Retrying k 2 3 e2), Sleep delay,
           FetchDetail k, UpdateOne (withHash W t d), Log (StoredSuccessfully k)]\<rparr>"
    using worker_r_third_attempt [OF assms(1-4) ne assms(5-6)] by blast
  show "actions (since s (worker_r W 3 delay k 0 s)) =
              [FetchDetail k, Sleep delay, FetchDetail k, Sleep delay, FetchDetail k,
               UpdateOne (withHash W t d)]"
    and "last (trace (worker_r W 3 delay k 0 s)) = Log (StoredSuccessfully k)"
    and "detailCalls (worker_r W 3 delay k 0 s) = detailCalls s + 3"
    and "collection (worker_r W 3 delay k 0 s) = collection s @ [withHash W t d]"
    and "savedCount (worker_r W 3 delay k 0 s) = savedCount s + 1"
    by (simp_all add: w since_def)
qed

theorem C7_two_transient_then_stored_witness:
  "transient (vacancyEndpoint W_flaky (detailCalls state0) ''7'')
   \<and> transient (vacancyEndpoint W_flaky (detailCalls state0 + 1) ''7'')
   \<and> vacancyEndpoint W_flaky (detailCalls state0 + 2) ''7'' =
       Response 200 (Parsed (vacancy ''7'' ''Go developer''))
   \<and> descriptionString (vacancy ''7'' ''Go developer'') = Some ''Go developer''
   \<and> md5Hash W_flaky ''Go developer'' \<notin> existingDescriptionHashes state0
   \<and> storeAccepts W_flaky (upsertCalls state0)
        (withHash W_flaky ''Go developer'' (vacancy ''7'' ''Go developer''))
   \<and> ''Go developer'' \<noteq> []
   \<and> actions (since state0 (worker W_flaky ''7'' 0 state0)) =
        [FetchDetail ''7'', Sleep 10, FetchDetail ''7'', Sleep 10, FetchDetail ''7'',
         UpdateOne [(''id'', JString ''7''), (''description'', JString ''Go developer''),
                    (''description_hash'', JString ''md5:Go developer'')]]
   \<and> last (trace (worker W_flaky ''7'' 0 state0)) = Log (StoredSuccessfully ''7'')
   \<and> detailCalls (worker W_flaky ''7'' 0 state0) = 3
   \<and> savedCount (worker W_flaky ''7'' 0 state0) = 1
   \<and> actions (since state0 (worker_r W_flaky 3 10 ''7'' 0 state0)) =
        [FetchDetail ''7'', Sleep 10, FetchDetail ''7'', Sleep 10, FetchDetail ''7'',
         UpdateOne [(''id'', JString ''7''), (''description'', JString ''Go developer''),
                    (''description_hash'', JString ''md5:Go developer'')]]
   \<and> last (trace (worker_r W_flaky 3 10 ''7'' 0 state0)) = Log (StoredSuccessfully ''7'')
   \<and> detailCalls (worker_r W_flaky 3 10 ''7'' 0 state0) = 3
   \<and> savedCount (worker_r W_flaky 3 10 ''7'' 0 state0) = 1"
  using C7_two_transient_then_stored
    [of W_flaky state0 "''7''" "vacancy ''7'' ''Go developer''" "''Go developer''" 10]
  by (simp add: W_flaky_def mkWorld_def state0_def transient_def vacancy_def
      descriptionString_def digest0_def withHash_def RetryDelay_def)


section \<open>Goroutines that overlap: one alone, two together\<close>

lemma processVacancy_parts:
  "processVacancy W k s =
     (case processVacancy_test W k s of
        (Returned err, s1) \<Rightarrow> (err, s1)
      | (Fresh d h, s1) \<Rightarrow>
          (case processVacancy_update W k d s1 of
             (False, s2) \<Rightarrow> (Some ErrRetryable, s2)
           | (True, s2) \<Rightarrow> (None, processVacancy_add k h s2)))"
  by (auto simp add: processVacancy_def processVacancy_test_def processVacancy_update_def
      processVacancy_add_def collectionUpdateOne_def Let_def
      split: reply.splits body.splits option.splits prod.splits)

lemma processVacancy_r_parts:
  "processVacancy_r W k s =
     (case processVacancy_r_test W k s of
        (Returned err, s1) \<Rightarrow> (err, s1)
      | (Fresh d h, s1) \<Rightarrow>
          (case UpsertVacancy W d s1 of
             (False, s2) \<Rightarrow> (Some MongoInsertionError, s2)
           | (True, s2) \<Rightarrow> (None, processVacancy_r_add k h s2)))"
  by (auto simp add: processVacancy_r_def processVacancy_r_test_def processVacancy_r_add_def
      UpsertVacancy_def collectionUpdateOne_def Let_def
      split: sum.splits option.splits prod.splits)

lemma alone_step:
  assumes "goroutine_step W k ph s = Some (ph', s')"
  shows "engine_run (goroutine_step W) (0 # schedule) \<lparr>goroutines = [(k, ph)], shared = s\<rparr> =
         engine_run (goroutine_step W) schedule \<lparr>goroutines = [(k, ph')], shared = s'\<rparr>"
  using assms by (simp add: engine_step_def)

lemma alone_r_step:
  assumes "goroutine_r_step W maxRetries delay k ph s = Some (ph', s')"
  shows "engine_run (goroutine_r_step W maxRetries delay) (0 # schedule)
           \<lparr>goroutines = [(k, ph)], shared = s\<rparr> =
         engine_run (goroutine_r_step W maxRetries delay) schedule
           \<lparr>goroutines = [(k, ph')], shared = s'\<rparr>"
  using assms by (simp add: engine_step_def)

text \<open>
  A goroutine that takes all its steps with no other in between ends with the state that
  \<open>worker\<close> gives: the function \<open>worker\<close> is the goroutine run alone.
\<close>

lemma goroutine_alone:
  "\<exists>schedule. engine_run (goroutine_step W) schedule
       \<lparr>goroutines = [(k, AtCall retries)], shared = s\<rparr> =
     Some \<lparr>goroutines = [(k, AtEnd)], shared = worker W k retries s\<rparr>"
proof (induction "nat (MaxRetries - retries)" arbitrary: retries s rule: less_induct)
  case less
  obtain err s1 where pv: "processVacancy W k s = (err, s1)"
    by (cases "processVacancy W k s")
  have after: "\<exists>schedule. engine_run (goroutine_step W) schedule
       \<lparr>goroutines = [(k, fst (afterCall k retries err s1))],
          shared = snd (afterCall k retries err s1)\<rparr> =
     Some \<lparr>goroutines = [(k, AtEnd)], shared = worker W k retries s\<rparr>"
  proof (cases "err = Some ErrRetryable \<and> retries < MaxRetries")
    case True
    let ?s2 = "emit (Log (RetryableError k (retries + 1))) s1"
    obtain schedule where sch: "engine_run (goroutine_step W) schedule
        \<lparr>goroutines = [(k, AtCall (retries + 1))], shared = emit (Sleep RetryDelay) ?s2\<rparr> =
      Some \<lparr>goroutines = [(k, AtEnd)],
             shared = worker W k (retries + 1) (emit (Sleep RetryDelay) ?s2)\<rparr>"
      using less [of "retries + 1" "emit (Sleep RetryDelay) ?s2"] True by auto
    have "engine_run (goroutine_step W) (0 # schedule)
        \<lparr>goroutines = [(k, AtSleep (retries + 1))], shared = ?s2\<rparr> =
      Some \<lparr>goroutines = [(k, AtEnd)],
             shared = worker W k (retries + 1) (emit (Sleep RetryDelay) ?s2)\<rparr>"
      using alone_step [of W k "AtSleep (retries + 1)" ?s2 "AtCall (retries + 1)"
          "emit (Sleep RetryDelay) ?s2" schedule] sch
      by simp
    moreover have "worker W k retries s = worker W k (retries + 1) (emit (Sleep RetryDelay) ?s2)"
      using True pv by (simp add: worker.simps [of W k retries s])
    moreover have "afterCall k retries err s1 = (AtSleep (retries + 1), ?s2)"
      using True by (simp add: afterCall_def)
    ultimately show ?thesis
      by (metis fst_conv snd_conv)
  next
    case False
    then have "afterCall k retries err s1 = (AtEnd, worker W k retries s)"
      using pv
      by (auto simp add: afterCall_def worker.simps [of W k retries s]
          split: option.splits perr.splits)
    then have "engine_run (goroutine_step W) []
        \<lparr>goroutines = [(k, fst (afterCall k retries err s1))],
           shared = snd (afterCall k retries err s1)\<rparr> =
      Some \<lparr>goroutines = [(k, AtEnd)], shared = worker W k retries s\<rparr>"
      by simp
    then show ?thesis by blast
  qed
  then obtain rest where rest: "engine_run (goroutine_step W) rest
       \<lparr>goroutines = [(k, fst (afterCall k retries err s1))],
          shared = snd (afterCall k retries err s1)\<rparr> =
     Some \<lparr>goroutines = [(k, AtEnd)], shared = worker W k retries s\<rparr>"
    by blast
  obtain c s0 where t: "processVacancy_test W k s = (c, s0)"
    by (cases "processVacancy_test W k s")
  show ?case
  proof (cases c)
    case (Returned e)
    then have "e = err" "s0 = s1"
      using pv t by (simp_all add: processVacancy_parts)
    then have "goroutine_step W k (AtCall retries) s =
        Some (fst (afterCall k retries err s1), snd (afterCall k retries err s1))"
      using t Returned by simp
    from alone_step [OF this, of rest] rest show ?thesis by metis
  next
    case (Fresh d h)
    then have first: "goroutine_step W k (AtCall retries) s = Some (AtUpdate retries d h, s0)"
      using t by simp
    obtain ok s2 where u: "processVacancy_update W k d s0 = (ok, s2)"
      by (cases "processVacancy_update W k d s0")
    show ?thesis
    proof (cases ok)
      case False
      then have "err = Some ErrRetryable" "s1 = s2"
        using pv t Fresh u by (simp_all add: processVacancy_parts)
      then have "goroutine_step W k (AtUpdate retries d h) s0 =
          Some (fst (afterCall k retries err s1), snd (afterCall k retries err s1))"
        using u False by simp
      from alone_step [OF this, of rest] rest
      have "engine_run (goroutine_step W) (0 # rest)
          \<lparr>goroutines = [(k, AtUpdate retries d h)], shared = s0\<rparr> =
        Some \<lparr>goroutines = [(k, AtEnd)], shared = worker W k retries s\<rparr>"
        by simp
      with alone_step [OF first, of "0 # rest"] show ?thesis by metis
    next
      case True
      then have e: "err = None" "s1 = processVacancy_add k h s2"
        using pv t Fresh u by (simp_all add: processVacancy_parts)
      have second: "goroutine_step W k (AtUpdate retries d h) s0 = Some (AtAdd retries h, s2)"
        using u True by simp
      have third: "goroutine_step W k (AtAdd retries h) s2 =
          Some (fst (afterCall k retries err s1), snd (afterCall k retries err s1))"
        using e by simp
      from alone_step [OF third, of rest] rest
      have "engine_run (goroutine_step W) (0 # rest)
          \<lparr>goroutines = [(k, AtAdd retries h)], shared = s2\<rparr> =
        Some \<lparr>goroutines = [(k, AtEnd)], shared = worker W k retries s\<rparr>"
        by simp
      with alone_step [OF second, of "0 # rest"]
      have "engine_run (goroutine_step W) (0 # 0 # rest)
          \<lparr>goroutines = [(k, AtUpdate retries d h)], shared = s0\<rparr> =
        Some \<lparr>goroutines = [(k, AtEnd)], shared = worker W k retries s\<rparr>"
        by simp
      with alone_step [OF first, of "0 # 0 # rest"] show ?thesis by metis
    qed
  qed
qed

lemma worker_r_over:
  "maxRetries < retries \<Longrightarrow> worker_r W maxRetries delay k retries s = s"
  by (simp add: worker_r.simps [of W maxRetries delay k retries s])

lemma goroutine_r_alone:
  "\<exists>schedule. engine_run (goroutine_r_step W maxRetries delay) schedule
       \<lparr>goroutines = [(k, AtCall retries)], shared = s\<rparr> =
     Some \<lparr>goroutines = [(k, AtEnd)], shared = worker_r W maxRetries delay k retries s\<rparr>"
proof (induction "nat (maxRetries + 1 - retries)" arbitrary: retries s rule: less_induct)
  case less
  show ?case
  proof (cases "retries \<le> maxRetries")
    case out: False
    then have "goroutine_r_step W maxRetries delay k (AtCall retries) s =
        Some (AtEnd, worker_r W maxRetries delay k retries s)"
      by (simp add: worker_r.simps [of W maxRetries delay k retries s])
    from alone_r_step [OF this, of "[]"] show ?thesis
      by (metis engine_run.simps(1))
  next
    case inb: True
    obtain err s1 where pv: "processVacancy_r W k s = (err, s1)"
      by (cases "processVacancy_r W k s")
    have after: "\<exists>schedule. engine_run (goroutine_r_step W maxRetries delay) schedule
         \<lparr>goroutines = [(k, fst (afterCall_r maxRetries k retries err s1))],
            shared = snd (afterCall_r maxRetries k retries err s1)\<rparr> =
       Some \<lparr>goroutines = [(k, AtEnd)], shared = worker_r W maxRetries delay k retries s\<rparr>"
    proof (cases "err \<noteq> None \<and> retries < maxRetries")
      case True
      then obtain e where e: "err = Some e" by auto
      let ?s2 = "emit (Log (Retrying k (retries + 1) maxRetries e)) s1"
      obtain schedule where sch: "engine_run (goroutine_r_step W maxRetries delay) schedule
          \<lparr>goroutines = [(k, AtCall (retries + 1))], shared = emit (Sleep delay) ?s2\<rparr> =
        Some \<lparr>goroutines = [(k, AtEnd)],
               shared = worker_r W maxRetries delay k (retries + 1) (emit (Sleep delay) ?s2)\<rparr>"
        using less [of "retries + 1" "emit (Sleep delay) ?s2"] True by auto
      have "engine_run (goroutine_r_step W maxRetries delay) (0 # schedule)
          \<lparr>goroutines = [(k, AtSleep (retries + 1))], shared = ?s2\<rparr> =
        Some \<lparr>goroutines = [(k, AtEnd)],
               shared = worker_r W maxRetries delay k (retries + 1) (emit (Sleep delay) ?s2)\<rparr>"
        using alone_r_step [of W maxRetries delay k "AtSleep (retries + 1)" ?s2
            "AtCall (retries + 1)" "emit (Sleep delay) ?s2" schedule] sch
        by simp
      moreover have "worker_r W maxRetries delay k retries s =
          worker_r W maxRetries delay k (retries + 1) (emit (Sleep delay) ?s2)"
        using True e pv inb by (simp add: worker_r.simps [of W maxRetries delay k retries s])
      moreover have "afterCall_r maxRetries k retries err s1 = (AtSleep (retries + 1), ?s2)"
        using True e by (simp add: afterCall_r_def)
      ultimately show ?thesis
        by (metis fst_conv snd_conv)
    next
      case False
      then have "afterCall_r maxRetries k retries err s1 =
          (AtEnd, worker_r W maxRetries delay k retries s)"
        using pv inb
        by (auto simp add: afterCall_r_def worker_r.simps [of W maxRetries delay k retries s]
            worker_r_over split: option.splits)
      then have "engine_run (goroutine_r_step W maxRetries delay) []
          \<lparr>goroutines = [(k, fst (afterCall_r maxRetries k retries err s1))],
             shared = snd (afterCall_r maxRetries k retries err s1)\<rparr> =
        Some \<lparr>goroutines = [(k, AtEnd)], shared = worker_r W maxRetries delay k retries s\<rparr>"
        by simp
      then show ?thesis by blast
    qed
    then obtain rest where rest: "engine_run (goroutine_r_step W maxRetries delay) rest
         \<lparr>goroutines = [(k, fst (afterCall_r maxRetries k retries err s1))],
            shared = snd (afterCall_r maxRetries k retries err s1)\<rparr> =
       Some \<lparr>goroutines = [(k, AtEnd)], shared = worker_r W maxRetries delay k retries s\<rparr>"
      by blast
    obtain c s0 where t: "processVacancy_r_test W k s = (c, s0)"
      by (cases "processVacancy_r_test W k s")
    show ?thesis
    proof (cases c)
      case (Returned e)
      then have "e = err" "s0 = s1"
        using pv t by (simp_all add: processVacancy_r_parts)
      then have "goroutine_r_step W maxRetries delay k (AtCall retries) s =
          Some (fst (afterCall_r maxRetries k retries err s1),
                snd (afterCall_r maxRetries k retries err s1))"
        using t Returned inb by simp
      from alone_r_step [OF this, of rest] rest show ?thesis by metis
    next
      case (Fresh d h)
      then have first: "goroutine_r_step W maxRetries delay k (AtCall retries) s =
          Some (AtUpdate retries d h, s0)"
        using t inb by simp
      obtain ok s2 where u: "UpsertVacancy W d s0 = (ok, s2)"
        by (cases "UpsertVacancy W d s0")
      show ?thesis
      proof (cases ok)
        case False
        then have "err = Some MongoInsertionError" "s1 = s2"
          using pv t Fresh u by (simp_all add: processVacancy_r_parts)
        then have "goroutine_r_step W maxRetries delay k (AtUpdate retries d h) s0 =
            Some (fst (afterCall_r maxRetries k retries err s1),
                  snd (afterCall_r maxRetries k retries err s1))"
          using u False by simp
        from alone_r_step [OF this, of rest] rest
        have "engine_run (goroutine_r_step W maxRetries delay) (0 # rest)
            \<lparr>goroutines = [(k, AtUpdate retries d h)], shared = s0\<rparr> =
          Some \<lparr>goroutines = [(k, AtEnd)], shared = worker_r W maxRetries delay k retries s\<rparr>"
          by simp
        with alone_r_step [OF first, of "0 # rest"] show ?thesis by metis
      next
        case True
        then have e: "err = None" "s1 = processVacancy_r_add k h s2"
          using pv t Fresh u by (simp_all add: processVacancy_r_parts)
        have second: "goroutine_r_step W maxRetries delay k (AtUpdate retries d h) s0 =
            Some (AtAdd retries h, s2)"
          using u True by simp
        have third: "goroutine_r_step W maxRetries delay k (AtAdd retries h) s2 =
            Some (fst (afterCall_r maxRetries k retries err s1),
                  snd (afterCall_r maxRetries k retries err s1))"
          using e by simp
        from alone_r_step [OF third, of rest] rest
        have "engine_run (goroutine_r_step W maxRetries delay) (0 # rest)
            \<lparr>goroutines = [(k, AtAdd retries h)], shared = s2\<rparr> =
          Some \<lparr>goroutines = [(k, AtEnd)], shared = worker_r W maxRetries delay k retries s\<rparr>"
          by simp
        with alone_r_step [OF second, of "0 # rest"]
        have "engine_run (goroutine_r_step W maxRetries delay) (0 # 0 # rest)
            \<lparr>goroutines = [(k, AtUpdate retries d h)], shared = s0\<rparr> =
          Some \<lparr>goroutines = [(k, AtEnd)], shared = worker_r W maxRetries delay k retries s\<rparr>"
          by simp
        with alone_r_step [OF first, of "0 # 0 # rest"] show ?thesis by metis
      qed
    qed
  qed
qed

lemma engine_run_append:
  "engine_run step (xs @ ys) e =
     (case engine_run step xs e of None \<Rightarrow> None | Some e' \<Rightarrow> engine_run step ys e')"
  by (induction xs arbitrary: e) (simp_all split: option.splits)

text \<open>What a goroutine does alone, it does at its place among the others.\<close>

lemma engine_lift:
  assumes "engine_run step schedule \<lparr>goroutines = [(k, ph)], shared = s\<rparr> =
             Some \<lparr>goroutines = [(k, ph')], shared = s'\<rparr>"
    and "i < length gs" and "gs ! i = (k, ph)"
  shows "\<exists>schedule'. engine_run step schedule' \<lparr>goroutines = gs, shared = s\<rparr> =
           Some \<lparr>goroutines = gs[i := (k, ph')], shared = s'\<rparr>"
  using assms
proof (induction schedule arbitrary: ph s gs)
  case Nil
  then have "ph = ph'" "s = s'" by simp_all
  then have "engine_run step [] \<lparr>goroutines = gs, shared = s\<rparr> =
      Some \<lparr>goroutines = gs[i := (k, ph')], shared = s'\<rparr>"
    using Nil.prems(3) list_update_id [of gs i] by simp
  then show ?case by blast
next
  case (Cons j schedule)
  from Cons.prems(1) obtain ph1 s1 where st: "step k ph s = Some (ph1, s1)"
    and rest: "engine_run step schedule \<lparr>goroutines = [(k, ph1)], shared = s1\<rparr> =
      Some \<lparr>goroutines = [(k, ph')], shared = s'\<rparr>"
    by (auto simp add: engine_step_def split: option.splits if_splits)
  have big: "engine_step step i \<lparr>goroutines = gs, shared = s\<rparr> =
      Some \<lparr>goroutines = gs[i := (k, ph1)], shared = s1\<rparr>"
    using st Cons.prems(2,3) by (simp add: engine_step_def)
  have "i < length (gs[i := (k, ph1)])" "gs[i := (k, ph1)] ! i = (k, ph1)"
    using Cons.prems(2) by simp_all
  from Cons.IH [OF rest this] obtain schedule' where
    "engine_run step schedule' \<lparr>goroutines = gs[i := (k, ph1)], shared = s1\<rparr> =
      Some \<lparr>goroutines = gs[i := (k, ph')], shared = s'\<rparr>"
    by auto
  then have "engine_run step (i # schedule') \<lparr>goroutines = gs, shared = s\<rparr> =
      Some \<lparr>goroutines = gs[i := (k, ph')], shared = s'\<rparr>"
    using big by simp
  then show ?case by blast
qed

text \<open>
  \<open>fetchVacancyDetails\<close> and \<open>fetchAndProcessVacancies\<close> are the goroutines of a page under
  the schedule on which they take their steps one goroutine after the other, in the order
  of the ids.
\<close>

lemma engine_in_turn:
  "\<exists>schedule. engine_run (goroutine_step W) schedule
       \<lparr>goroutines = map (\<lambda>ID. (ID, AtEnd)) ended @ map (\<lambda>ID. (ID, AtCall 0)) ids,
          shared = s\<rparr> =
     Some \<lparr>goroutines = map (\<lambda>ID. (ID, AtEnd)) (ended @ ids),
            shared = fetchVacancyDetails W ids s\<rparr>"
proof (induction ids arbitrary: ended s)
  case Nil
  have "engine_run (goroutine_step W) []
      \<lparr>goroutines = map (\<lambda>ID. (ID, AtEnd)) ended @ map (\<lambda>ID. (ID, AtCall 0)) [], shared = s\<rparr> =
    Some \<lparr>goroutines = map (\<lambda>ID. (ID, AtEnd)) (ended @ []),
           shared = fetchVacancyDetails W [] s\<rparr>"
    by simp
  then show ?case by blast
next
  case (Cons k ids)
  let ?gs = "map (\<lambda>ID. (ID, AtEnd)) ended @ map (\<lambda>ID. (ID, AtCall 0)) (k # ids)"
  obtain one where one: "engine_run (goroutine_step W) one
      \<lparr>goroutines = [(k, AtCall 0)], shared = s\<rparr> =
    Some \<lparr>goroutines = [(k, AtEnd)], shared = worker W k 0 s\<rparr>"
    using goroutine_alone [of W k 0 s] by blast
  have "length ended < length ?gs" "?gs ! length ended = (k, AtCall 0)"
    by (simp_all add: nth_append)
  from engine_lift [OF one this] obtain first where first:
    "engine_run (goroutine_step W) first \<lparr>goroutines = ?gs, shared = s\<rparr> =
      Some \<lparr>goroutines = ?gs[length ended := (k, AtEnd)], shared = worker W k 0 s\<rparr>"
    by blast
  have gs: "?gs[length ended := (k, AtEnd)] =
      map (\<lambda>ID. (ID, AtEnd)) (ended @ [k]) @ map (\<lambda>ID. (ID, AtCall 0)) ids"
    by (simp add: list_update_append)
  obtain others where others: "engine_run (goroutine_step W) others
      \<lparr>goroutines = map (\<lambda>ID. (ID, AtEnd)) (ended @ [k]) @ map (\<lambda>ID. (ID, AtCall 0)) ids,
         shared = worker W k 0 s\<rparr> =
    Some \<lparr>goroutines = map (\<lambda>ID. (ID, AtEnd)) ((ended @ [k]) @ ids),
           shared = fetchVacancyDetails W ids (worker W k 0 s)\<rparr>"
    using Cons [of "ended @ [k]" "worker W k 0 s"] by blast
  have "engine_run (goroutine_step W) (first @ others) \<lparr>goroutines = ?gs, shared = s\<rparr> =
      Some \<lparr>goroutines = map (\<lambda>ID. (ID, AtEnd)) (ended @ k # ids),
             shared = fetchVacancyDetails W (k # ids) s\<rparr>"
    using first [unfolded gs] others by (simp add: engine_run_append del: map_append)
  then show ?case by blast
qed

lemma engine_r_in_turn:
  "\<exists>schedule. engine_run (goroutine_r_step W maxRetries delay) schedule
       \<lparr>goroutines = map (\<lambda>ID. (ID, AtEnd)) ended @ map (\<lambda>ID. (ID, AtCall 0)) ids,
          shared = s\<rparr> =
     Some \<lparr>goroutines = map (\<lambda>ID. (ID, AtEnd)) (ended @ ids),
            shared = fetchAndProcessVacancies W ids maxRetries delay s\<rparr>"
proof (induction ids arbitrary: ended s)
  case Nil
  have "engine_run (goroutine_r_step W maxRetries delay) []
      \<lparr>goroutines = map (\<lambda>ID. (ID, AtEnd)) ended @ map (\<lambda>ID. (ID, AtCall 0)) [], shared = s\<rparr> =
    Some \<lparr>goroutines = map (\<lambda>ID. (ID, AtEnd)) (ended @ []),
           shared = fetchAndProcessVacancies W [] maxRetries delay s\<rparr>"
    by simp
  then show ?case by blast
next
  case (Cons k ids)
  let ?gs = "map (\<lambda>ID. (ID, AtEnd)) ended @ map (\<lambda>ID. (ID, AtCall 0)) (k # ids)"
  let ?w = "worker_r W maxRetries delay k 0 s"
  obtain one where one: "engine_run (goroutine_r_step W maxRetries delay) one
      \<lparr>goroutines = [(k, AtCall 0)], shared = s\<rparr> =
    Some \<lparr>goroutines = [(k, AtEnd)], shared = ?w\<rparr>"
    using goroutine_r_alone [of W maxRetries delay k 0 s] by blast
  have "length ended < length ?gs" "?gs ! length ended = (k, AtCall 0)"
    by (simp_all add: nth_append)
  from engine_lift [OF one this] obtain first where first:
    "engine_run (goroutine_r_step W maxRetries delay) first \<lparr>goroutines = ?gs, shared = s\<rparr> =
      Some \<lparr>goroutines = ?gs[length ended := (k, AtEnd)], shared = ?w\<rparr>"
    by blast
  have gs: "?gs[length ended := (k, AtEnd)] =
      map (\<lambda>ID. (ID, AtEnd)) (ended @ [k]) @ map (\<lambda>ID. (ID, AtCall 0)) ids"
    by (simp add: list_update_append)
  obtain others where others: "engine_run (goroutine_r_step W maxRetries delay) others
      \<lparr>goroutines = map (\<lambda>ID. (ID, AtEnd)) (ended @ [k]) @ map (\<lambda>ID. (ID, AtCall 0)) ids,
         shared = ?w\<rparr> =
    Some \<lparr>goroutines = map (\<lambda>ID. (ID, AtEnd)) ((ended @ [k]) @ ids),
           shared = fetchAndProcessVacancies W ids maxRetries delay ?w\<rparr>"
    using Cons [of "ended @ [k]" ?w] by blast
  have "engine_run (goroutine_r_step W maxRetries delay) (first @ others)
      \<lparr>goroutines = ?gs, shared = s\<rparr> =
      Some \<lparr>goroutines = map (\<lambda>ID. (ID, AtEnd)) (ended @ k # ids),
             shared = fetchAndProcessVacancies W (k # ids) maxRetries delay s\<rparr>"
    using first [unfolded gs] others by (simp add: engine_run_append del: map_append)
  then show ?case by blast
qed

lemma fetchVacancyDetails_is_a_schedule:
  "\<exists>schedule. engine_run (goroutine_step W) schedule (engine_init ids s) =
     Some \<lparr>goroutines = map (\<lambda>ID. (ID, AtEnd)) ids, shared = fetchVacancyDetails W ids s\<rparr>"
  using engine_in_turn [of W "[]" ids s] by (simp add: engine_init_def)

lemma fetchAndProcessVacancies_is_a_schedule:
  "\<exists>schedule. engine_run (goroutine_r_step W maxRetries delay) schedule (engine_init ids s) =
     Some \<lparr>goroutines = map (\<lambda>ID. (ID, AtEnd)) ids,
            shared = fetchAndProcessVacancies W ids maxRetries delay s\<rparr>"
  using engine_r_in_turn [of W maxRetries delay "[]" ids s] by (simp add: engine_init_def)

text \<open>
  Whatever the schedule, the goroutines leave the set of known ids and the searches alone:
  what the page loop does with a page does not depend on how its goroutines overlap.
\<close>

lemma goroutine_step_untouched:
  "goroutine_step W k ph s = Some (ph', s') \<Longrightarrow> untouched s s'"
  by (cases ph)
    (auto simp add: untouched_def processVacancy_test_def processVacancy_update_def
      processVacancy_add_def afterCall_def collectionUpdateOne_def Let_def
      split: reply.splits body.splits option.splits if_splits perr.splits bool.splits
        prod.splits tested.splits)

lemma goroutine_r_step_untouched:
  "goroutine_r_step W maxRetries delay k ph s = Some (ph', s') \<Longrightarrow> untouched s s'"
  by (cases ph)
    (auto simp add: untouched_def processVacancy_r_test_def processVacancy_r_add_def
      afterCall_r_def UpsertVacancy_def collectionUpdateOne_def AddDescriptionHash_def
      Let_def
      split: sum.splits option.splits if_splits bool.splits prod.splits tested.splits)

lemma engine_run_untouched:
  assumes "\<And>k ph s ph' s'. step k ph s = Some (ph', s') \<Longrightarrow> untouched s s'"
    and "engine_run step schedule e = Some e'"
  shows "untouched (shared e) (shared e')"
  using assms(2)
proof (induction schedule arbitrary: e)
  case Nil
  then show ?case by (simp add: untouched_def)
next
  case (Cons i schedule)
  from Cons.prems obtain e1 where a: "engine_step step i e = Some e1"
    and b: "engine_run step schedule e1 = Some e'"
    by (auto split: option.splits)
  from a have "untouched (shared e) (shared e1)"
    using assms(1) by (auto simp add: engine_step_def split: if_splits option.splits)
  then show ?case using Cons.IH [OF b] by (simp add: untouched_def)
qed









text \<open>
  Two goroutines that both test the digest before either has added it, with a store that
  accepts both documents: both call \<^verbatim>\<open>UpdateOne\<close>, both documents are in the store and
  both vacancies are logged and counted as stored. The steps are taken in turn here; the
  same holds for every schedule that begins with the two tests.
\<close>

lemma engine_overlap:
  assumes "vacancyEndpoint W (detailCalls s) a = Response 200 (Parsed da)"
    and "vacancyEndpoint W (detailCalls s + 1) b = Response 200 (Parsed db)"
    and "descriptionString da = Some t" and "descriptionString db = Some t"
    and "md5Hash W t \<notin> existingDescriptionHashes s"
    and "storeAccepts W (upsertCalls s) (withHash W t da)"
    and "storeAccepts W (upsertCalls s + 1) (withHash W t db)"
  shows "engine_run (goroutine_step W) [0, 1, 0, 1, 0, 1] (engine_init [a, b] s) =
           Some \<lparr>goroutines = [(a, AtEnd), (b, AtEnd)],
                  shared = s\<lparr>detailCalls := detailCalls s + 2, upsertCalls := upsertCalls s + 2,
                     collection := collection s @ [withHash W t da, withHash W t db],
                     existingDescriptionHashes :=
                       insert (md5Hash W t) (existingDescriptionHashes s),
                     savedCount := savedCount s + 2,
                     trace := trace s @
                       [FetchDetail a, FetchDetail b, UpdateOne (withHash W t da),
                        UpdateOne (withHash W t db), Log (StoredSuccessfully a),
                        Log (StoredSuccessfully b)]\<rparr>\<rparr>"
  using assms
  by (simp add: engine_init_def engine_step_def processVacancy_test_def
      processVacancy_update_def processVacancy_add_def afterCall_def collectionUpdateOne_def
      withHash_def Let_def emit_def)

lemma engine_r_overlap:
  assumes "vacancyEndpoint W (detailCalls s) a = Response 200 (Parsed da)"
    and "vacancyEndpoint W (detailCalls s + 1) b = Response 200 (Parsed db)"
    and "descriptionString da = Some t" and "descriptionString db = Some t"
    and "t \<noteq> []" and "0 \<le> maxRetries"
    and "md5Hash W t \<notin> existingDescriptionHashes s"
    and "storeAccepts W (upsertCalls s) (withHash W t da)"
    and "storeAccepts W (upsertCalls s + 1) (withHash W t db)"
  shows "engine_run (goroutine_r_step W maxRetries delay) [0, 1, 0, 1, 0, 1]
             (engine_init [a, b] s) =
           Some \<lparr>goroutines = [(a, AtEnd), (b, AtEnd)],
                  shared = s\<lparr>detailCalls := detailCalls s + 2, upsertCalls := upsertCalls s + 2,
                     collection := collection s @ [withHash W t da, withHash W t db],
                     existingDescriptionHashes :=
                       insert (md5Hash W t) (existingDescriptionHashes s),
                     savedCount := savedCount s + 2,
                     trace := trace s @
                       [FetchDetail a, FetchDetail b, UpdateOne (withHash W t da),
                        UpdateOne (withHash W t db), Log (StoredSuccessfully a),
                        Log (StoredSuccessfully b)]\<rparr>\<rparr>"
  using assms
  by (simp add: engine_init_def engine_step_def processVacancy_r_test_def
      processVacancy_r_add_def afterCall_r_def UpsertVacancy_def collectionUpdateOne_def
      GetVacancyDetails_def MD5Hash_def DescriptionHashExists_def AddDescriptionHash_def
      withHash_def Let_def emit_def)


text \<open>
  With a store that has a unique index on the digest the second document is refused: the
  second goroutine has still called \<^verbatim>\<open>UpdateOne\<close>, sleeps, fetches the vacancy again and
  only then skips it as a duplicate.
\<close>

lemma overlap_with_unique_index:
  "map_option (\<lambda>e. (map snd (goroutines e), trace (shared e), length (collection (shared e))))
     (engine_run (goroutine_step W_same_indexed) [0, 1, 0, 1, 0, 1, 1]
        (engine_init [''7'', ''8''] state0)) =
     Some ([AtEnd, AtEnd],
           [FetchDetail ''7'', FetchDetail ''8'',
            UpdateOne (withHash W_same ''Go developer'' (vacancy ''7'' ''Go developer'')),
            UpdateOne (withHash W_same ''Go developer'' (vacancy ''8'' ''Go developer'')),
            Log (InsertionError ''8''), Log (RetryableError ''8'' 1),
            Log (StoredSuccessfully ''7''), Sleep 10, FetchDetail ''8'',
            Log (SkippedDuplicate ''8'')], 1)"
  "map_option (\<lambda>e. (map snd (goroutines e), trace (shared e), length (collection (shared e))))
     (engine_run (goroutine_r_step W_same_indexed 3 10) [0, 1, 0, 1, 0, 1, 1]
        (engine_init [''7'', ''8''] state0)) =
     Some ([AtEnd, AtEnd],
           [FetchDetail ''7'', FetchDetail ''8'',
            UpdateOne (withHash W_same ''Go developer'' (vacancy ''7'' ''Go developer'')),
            UpdateOne (withHash W_same ''Go developer'' (vacancy ''8'' ''Go developer'')),
            Log (Retrying ''8'' 1 3 MongoInsertionError),
            Log (StoredSuccessfully ''7''), Sleep 10, FetchDetail ''8'',
            Log (SkippedDuplicate ''8'')], 1)"
  by (simp_all add: W_same_indexed_def W_same_def mkWorld_def state0_def vacancy_def
      descriptionString_def digest0_def engine_init_def engine_step_def
      processVacancy_test_def processVacancy_update_def processVacancy_add_def afterCall_def
      processVacancy_r_test_def processVacancy_r_add_def afterCall_r_def UpsertVacancy_def
      GetVacancyDetails_def MD5Hash_def DescriptionHashExists_def AddDescriptionHash_def
      collectionUpdateOne_def withHash_def Let_def emit_def MaxRetries_def RetryDelay_def)





section \<open>The page loop\<close>

lemma int64_eq [simp]: "- (2 ^ 63) \<le> x \<Longrightarrow> x < 2 ^ 63 \<Longrightarrow> int64 x = x"
  by (simp add: int64_def)

lemma body_calls:
  "searchCalls (trace (st (fetchAndStoreVacancies_body W l))) =
     searchCalls (trace (st l)) @ [page l]"
  using fetchVacancyDetails_untouched
  by (auto simp add: fetchAndStoreVacancies_body_def Let_def untouched_def
      split: reply.splits body.splits)

lemma body_r_calls:
  "searchCalls (trace (st (fetchAndStoreVacancies_r_body W cfg l))) =
     searchCalls (trace (st l)) @ [page l]"
  using fetchAndProcessVacancies_untouched
  by (auto simp add: fetchAndStoreVacancies_r_body_def Let_def untouched_def
      split: sum.splits)



lemma body_served:
  assumes "searchEndpoint W (page l) = Response 200 (Parsed r)"
  shows "totalPages (fetchAndStoreVacancies_body W l) =
           (if page l = 0 then Pages r else totalPages l)"
    and "exited (fetchAndStoreVacancies_body W l) =
           (exited l \<or> page l \<ge> int64 ((if page l = 0 then Pages r else totalPages l) - 1))"
    and "page (fetchAndStoreVacancies_body W l) =
           (if page l \<ge> int64 ((if page l = 0 then Pages r else totalPages l) - 1)
            then page l else page l + 1)"
  using assms by (simp_all add: fetchAndStoreVacancies_body_def Let_def)

lemma body_skipped:
  assumes "pageSkipped (searchEndpoint W (page l))"
  shows "totalPages (fetchAndStoreVacancies_body W l) = totalPages l"
    and "exited (fetchAndStoreVacancies_body W l) = exited l"
    and "page (fetchAndStoreVacancies_body W l) = page l + 1"
  using assms
  by (auto simp add: fetchAndStoreVacancies_body_def Let_def pageSkipped_def
      split: reply.splits body.splits)

lemma body_refused:
  assumes "searchEndpoint W (page l) = Response code b" and "code \<noteq> 200"
  shows "totalPages (fetchAndStoreVacancies_body W l) = totalPages l"
    and "exited (fetchAndStoreVacancies_body W l) = (exited l \<or> page l \<ge> int64 (totalPages l - 1))"
    and "page (fetchAndStoreVacancies_body W l) =
           (if page l \<ge> int64 (totalPages l - 1) then page l else page l + 1)"
  using assms by (simp_all add: fetchAndStoreVacancies_body_def Let_def)

lemma body_r_served:
  assumes "searchEndpoint W (page l) = Response 200 (Parsed r)"
  shows "totalPages (fetchAndStoreVacancies_r_body W cfg l) =
           (if page l = 0 then Pages r else totalPages l)"
    and "exited (fetchAndStoreVacancies_r_body W cfg l) =
           (exited l \<or> page l \<ge> int64 ((if page l = 0 then Pages r else totalPages l) - 1))"
    and "page (fetchAndStoreVacancies_r_body W cfg l) =
           (if page l \<ge> int64 ((if page l = 0 then Pages r else totalPages l) - 1)
            then page l else page l + 1)"
  using assms by (simp_all add: fetchAndStoreVacancies_r_body_def GetVacancyIDs_def Let_def)

text \<open>
  The one page count at which the wrap shows: \<open>- 2 ^ 63\<close> on page 0. \<^verbatim>\<open>totalPages-1\<close> is then
  the greatest \<^verbatim>\<open>int\<close>, and the loop is not left after page 0.
\<close>

lemma int64_wraps: "int64 (- (2 ^ 63) - 1) = 2 ^ 63 - 1"
  by (simp add: int64_def)

lemma body_wrapped:
  assumes "searchEndpoint W (page l) = Response 200 (Parsed r)" and "page l = 0"
    and "Pages r = - (2 ^ 63)" and "\<not> exited l"
  shows "\<not> exited (fetchAndStoreVacancies_body W l)"
    and "\<not> exited (fetchAndStoreVacancies_r_body W cfg l)"
  using assms body_served(2) [OF assms(1)] body_r_served(2) [OF assms(1), of cfg]
  by (simp_all add: int64_def)

lemma body_r_failed:
  assumes "pageFailed (searchEndpoint W (page l))"
  shows "totalPages (fetchAndStoreVacancies_r_body W cfg l) = totalPages l"
    and "exited (fetchAndStoreVacancies_r_body W cfg l) = exited l"
    and "page (fetchAndStoreVacancies_r_body W cfg l) = page l + 1"
  using assms
  by (auto simp add: fetchAndStoreVacancies_r_body_def GetVacancyIDs_def Let_def pageFailed_def
      split: reply.splits body.splits)

lemma body_between:
  assumes "page l \<noteq> 0" and "page l < int64 (totalPages l - 1)"
  shows "page (fetchAndStoreVacancies_body W l) = page l + 1"
    and "totalPages (fetchAndStoreVacancies_body W l) = totalPages l"
    and "exited (fetchAndStoreVacancies_body W l) = exited l"
  using assms
  by (auto simp add: fetchAndStoreVacancies_body_def Let_def split: reply.splits body.splits)

lemma body_r_between:
  assumes "page l \<noteq> 0" and "page l < int64 (totalPages l - 1)"
  shows "page (fetchAndStoreVacancies_r_body W cfg l) = page l + 1"
    and "totalPages (fetchAndStoreVacancies_r_body W cfg l) = totalPages l"
    and "exited (fetchAndStoreVacancies_r_body W cfg l) = exited l"
  using assms
  by (auto simp add: fetchAndStoreVacancies_r_body_def Let_def split: sum.splits)

lemma loop_exited [simp]: "exited l \<Longrightarrow> fetchAndStoreVacancies_loop n W l = l"
  by (cases n) simp_all

lemma loop_r_exited [simp]: "exited l \<Longrightarrow> fetchAndStoreVacancies_r_loop n W cfg l = l"
  by (cases n) simp_all

lemma loop_add:
  "fetchAndStoreVacancies_loop (m + n) W l =
     fetchAndStoreVacancies_loop n W (fetchAndStoreVacancies_loop m W l)"
  by (induction m arbitrary: l) simp_all

lemma loop_r_add:
  "fetchAndStoreVacancies_r_loop (m + n) W cfg l =
     fetchAndStoreVacancies_r_loop n W cfg (fetchAndStoreVacancies_r_loop m W cfg l)"
  by (induction m arbitrary: l) simp_all



lemma loop_calls_prefix:
  "prefix (searchCalls (trace (st l)))
     (searchCalls (trace (st (fetchAndStoreVacancies_loop n W l))))"
proof (induction n arbitrary: l)
  case 0
  show ?case by simp
next
  case (Suc n)
  show ?case
  proof (cases "exited l")
    case True
    then show ?thesis by simp
  next
    case False
    have "prefix (searchCalls (trace (st l)))
            (searchCalls (trace (st (fetchAndStoreVacancies_body W l))))"
      by (simp add: body_calls)
    then show ?thesis
      using False Suc [of "fetchAndStoreVacancies_body W l"] prefix_order.trans by auto
  qed
qed

lemma loop_r_calls_prefix:
  "prefix (searchCalls (trace (st l)))
     (searchCalls (trace (st (fetchAndStoreVacancies_r_loop n W cfg l))))"
proof (induction n arbitrary: l)
  case 0
  show ?case by simp
next
  case (Suc n)
  show ?case
  proof (cases "exited l")
    case True
    then show ?thesis by simp
  next
    case False
    have "prefix (searchCalls (trace (st l)))
            (searchCalls (trace (st (fetchAndStoreVacancies_r_body W cfg l))))"
      by (simp add: body_r_calls)
    then show ?thesis
      using False Suc [of "fetchAndStoreVacancies_r_body W cfg l"] prefix_order.trans by auto
  qed
qed

text \<open>A run of passes on which every search is lost: the loop only counts the pages.\<close>

lemma loop_skipped:
  assumes "\<not> exited l"
    and "\<forall>j. page l \<le> j \<and> j < page l + int m \<longrightarrow> pageSkipped (searchEndpoint W j)"
  shows "page (fetchAndStoreVacancies_loop m W l) = page l + int m
       \<and> totalPages (fetchAndStoreVacancies_loop m W l) = totalPages l
       \<and> \<not> exited (fetchAndStoreVacancies_loop m W l)
       \<and> searchCalls (trace (st (fetchAndStoreVacancies_loop m W l))) =
           searchCalls (trace (st l)) @ [page l .. page l + int m - 1]"
  using assms
proof (induction m arbitrary: l)
  case 0
  then show ?case by simp
next
  case (Suc m)
  let ?l = "fetchAndStoreVacancies_body W l"
  have sk: "pageSkipped (searchEndpoint W (page l))"
    using Suc.prems by simp
  have f: "page ?l = page l + 1" "totalPages ?l = totalPages l" "\<not> exited ?l"
    using body_skipped [OF sk] Suc.prems by simp_all
  have "\<forall>j. page ?l \<le> j \<and> j < page ?l + int m \<longrightarrow> pageSkipped (searchEndpoint W j)"
    using Suc.prems f by simp
  from Suc.IH [OF f(3) this] f Suc.prems(1) show ?case
    by (simp add: body_calls upto_rec1 [of "page l" "page l + int m"])
qed

lemma loop_r_failed:
  assumes "\<not> exited l"
    and "\<forall>j. page l \<le> j \<and> j < page l + int m \<longrightarrow> pageFailed (searchEndpoint W j)"
  shows "page (fetchAndStoreVacancies_r_loop m W cfg l) = page l + int m
       \<and> totalPages (fetchAndStoreVacancies_r_loop m W cfg l) = totalPages l
       \<and> \<not> exited (fetchAndStoreVacancies_r_loop m W cfg l)
       \<and> searchCalls (trace (st (fetchAndStoreVacancies_r_loop m W cfg l))) =
           searchCalls (trace (st l)) @ [page l .. page l + int m - 1]"
  using assms
proof (induction m arbitrary: l)
  case 0
  then show ?case by simp
next
  case (Suc m)
  let ?l = "fetchAndStoreVacancies_r_body W cfg l"
  have sk: "pageFailed (searchEndpoint W (page l))"
    using Suc.prems by simp
  have f: "page ?l = page l + 1" "totalPages ?l = totalPages l" "\<not> exited ?l"
    using body_r_failed [OF sk] Suc.prems by simp_all
  have "\<forall>j. page ?l \<le> j \<and> j < page ?l + int m \<longrightarrow> pageFailed (searchEndpoint W j)"
    using Suc.prems f by simp
  from Suc.IH [OF f(3) this] f Suc.prems(1) show ?case
    by (simp add: body_r_calls upto_rec1 [of "page l" "page l + int m"])
qed


lemma three_pages:
  assumes e0: "searchEndpoint W 0 = Response 200 (Parsed r0)" and p0: "Pages r0 = 3"
    and e2: "searchEndpoint W 2 = Response 200 (Parsed r2)"
  shows "exited (fetchAndStoreVacancies 3 W s)"
    and "\<not> exited (fetchAndStoreVacancies 2 W s)"
    and "searchCalls (trace (st (fetchAndStoreVacancies 3 W s))) = searchCalls (trace s) @ [0, 1, 2]"
    and "fetchAndStoreVacancies (3 + n) W s = fetchAndStoreVacancies 3 W s"
proof -
  define l0 where "l0 = \<lparr>page = 0, totalPages = 0, exited = False, st = s\<rparr>"
  define l1 where "l1 = fetchAndStoreVacancies_body W l0"
  define l2 where "l2 = fetchAndStoreVacancies_body W l1"
  define l3 where "l3 = fetchAndStoreVacancies_body W l2"
  have f1: "page l1 = 1" "totalPages l1 = 3" "\<not> exited l1"
    using body_served [of W l0 r0] e0 p0 by (simp_all add: l1_def l0_def)
  have f2: "page l2 = 2" "totalPages l2 = 3" "\<not> exited l2"
    using body_between [of l1 W] f1 by (simp_all add: l2_def)
  have f3: "exited l3"
    using body_served [of W l2 r2] e2 f2 by (simp_all add: l3_def)
  have c: "searchCalls (trace (st l3)) = searchCalls (trace s) @ [0, 1, 2]"
    using f1 f2 by (simp add: l3_def l2_def body_calls) (simp add: l1_def l0_def body_calls)
  have run3: "fetchAndStoreVacancies 3 W s = l3"
    using f1 f2 by (simp add: fetchAndStoreVacancies_def numeral_3_eq_3 l0_def [symmetric]
        l1_def [symmetric] l2_def [symmetric] l3_def [symmetric]) (simp add: l0_def)
  have run2: "fetchAndStoreVacancies 2 W s = l2"
    using f1 by (simp add: fetchAndStoreVacancies_def numeral_2_eq_2 l0_def [symmetric]
        l1_def [symmetric] l2_def [symmetric]) (simp add: l0_def)
  show "exited (fetchAndStoreVacancies 3 W s)" using run3 f3 by simp
  show "\<not> exited (fetchAndStoreVacancies 2 W s)" using run2 f2 by simp
  show "searchCalls (trace (st (fetchAndStoreVacancies 3 W s))) = searchCalls (trace s) @ [0, 1, 2]"
    using run3 c by simp
  show "fetchAndStoreVacancies (3 + n) W s = fetchAndStoreVacancies 3 W s"
    using run3 f3 by (simp add: fetchAndStoreVacancies_def loop_add)
qed

lemma three_pages_r:
  assumes e0: "searchEndpoint W 0 = Response 200 (Parsed r0)" and p0: "Pages r0 = 3"
    and e2: "searchEndpoint W 2 = Response 200 (Parsed r2)"
  shows "exited (fetchAndStoreVacancies_r 3 W cfg s)"
    and "\<not> exited (fetchAndStoreVacancies_r 2 W cfg s)"
    and "searchCalls (trace (st (fetchAndStoreVacancies_r 3 W cfg s))) =
           searchCalls (trace s) @ [0, 1, 2]"
    and "fetchAndStoreVacancies_r (3 + n) W cfg s = fetchAndStoreVacancies_r 3 W cfg s"
proof -
  define l0 where "l0 = \<lparr>page = 0, totalPages = 0, exited = False, st = s\<lparr>savedCount := 0\<rparr>\<rparr>"
  define l1 where "l1 = fetchAndStoreVacancies_r_body W cfg l0"
  define l2 where "l2 = fetchAndStoreVacancies_r_body W cfg l1"
  define l3 where "l3 = fetchAndStoreVacancies_r_body W cfg l2"
  have f1: "page l1 = 1" "totalPages l1 = 3" "\<not> exited l1"
    using body_r_served [of W l0 r0] e0 p0 by (simp_all add: l1_def l0_def)
  have f2: "page l2 = 2" "totalPages l2 = 3" "\<not> exited l2"
    using body_r_between [of l1 W] f1 by (simp_all add: l2_def)
  have f3: "exited l3"
    using body_r_served [of W l2 r2] e2 f2 by (simp_all add: l3_def)
  have c: "searchCalls (trace (st l3)) = searchCalls (trace s) @ [0, 1, 2]"
    using f1 f2 by (simp add: l3_def l2_def body_r_calls) (simp add: l1_def l0_def body_r_calls)
  have run3: "fetchAndStoreVacancies_r 3 W cfg s = l3"
    using f1 f2 by (simp add: fetchAndStoreVacancies_r_def numeral_3_eq_3 l0_def [symmetric]
        l1_def [symmetric] l2_def [symmetric] l3_def [symmetric]) (simp add: l0_def)
  have run2: "fetchAndStoreVacancies_r 2 W cfg s = l2"
    using f1 by (simp add: fetchAndStoreVacancies_r_def numeral_2_eq_2 l0_def [symmetric]
        l1_def [symmetric] l2_def [symmetric]) (simp add: l0_def)
  show "exited (fetchAndStoreVacancies_r 3 W cfg s)" using run3 f3 by simp
  show "\<not> exited (fetchAndStoreVacancies_r 2 W cfg s)" using run2 f2 by simp
  show "searchCalls (trace (st (fetchAndStoreVacancies_r 3 W cfg s))) =
          searchCalls (trace s) @ [0, 1, 2]"
    using run3 c by simp
  show "fetchAndStoreVacancies_r (3 + n) W cfg s = fetchAndStoreVacancies_r 3 W cfg s"
    using run3 f3 by (simp add: fetchAndStoreVacancies_r_def loop_r_add)
qed

text \<open>
  C5, as it stands: whenever page 0 is served and reports three pages, the searches are
  for the pages 0, 1 and 2 and no more. It fails when the search for page 2 is lost: the
  loop adds one to \<open>page\<close> without looking at \<open>totalPages\<close> and searches for page 3. Here
  page 0 is served and reports three pages, the transport fails on page 2, and both programs
  search for the pages 0, 1, 2 and 3.
\<close>

theorem C5_three_pages_counterexample:
  "searchEndpoint W_three_cut 0 = Response 200 (Parsed \<lparr>Pages = 3, Items = []\<rparr>)
   \<and> searchCalls (trace (st (fetchAndStoreVacancies 4 W_three_cut state0))) = [0, 1, 2, 3]
   \<and> searchCalls (trace (st (fetchAndStoreVacancies_r 4 W_three_cut
        (LoadConfig ''2024-01-01'' ''2024-01-02'' ''token'' ''uri'') state0))) = [0, 1, 2, 3]"
  by (simp add: W_three_cut_def mkWorld_def pageOf_def state0_def fetchAndStoreVacancies_def
      fetchAndStoreVacancies_r_def fetchAndStoreVacancies_body_def
      fetchAndStoreVacancies_r_body_def GetVacancyIDs_def VacancyExists_def LoadConfig_def
      Let_def numeral_eq_Suc)

text \<open>
  C5, amended: whenever page 0 is served and reports three pages and page 2 is served, the
  loop of either program is left in its third pass and not before, the searches it has made
  are those for the pages 0, 1 and 2, in this order, and more passes allowed change nothing.
  What the search for page 1 comes to does not matter.
\<close>

theorem C5_three_pages:
  assumes "searchEndpoint W 0 = Response 200 (Parsed r0)" and "Pages r0 = 3"
    and "searchEndpoint W 2 = Response 200 (Parsed r2)"
  shows "exited (fetchAndStoreVacancies 3 W s)
       \<and> \<not> exited (fetchAndStoreVacancies 2 W s)
       \<and> searchCalls (trace (st (fetchAndStoreVacancies 3 W s))) = searchCalls (trace s) @ [0, 1, 2]
       \<and> fetchAndStoreVacancies (3 + n) W s = fetchAndStoreVacancies 3 W s
       \<and> exited (fetchAndStoreVacancies_r 3 W cfg s)
       \<and> \<not> exited (fetchAndStoreVacancies_r 2 W cfg s)
       \<and> searchCalls (trace (st (fetchAndStoreVacancies_r 3 W cfg s))) =
           searchCalls (trace s) @ [0, 1, 2]
       \<and> fetchAndStoreVacancies_r (3 + n) W cfg s = fetchAndStoreVacancies_r 3 W cfg s"
proof -
  have single_file:
    "exited (fetchAndStoreVacancies 3 W s) \<and> \<not> exited (fetchAndStoreVacancies 2 W s)"
    "searchCalls (trace (st (fetchAndStoreVacancies 3 W s))) = searchCalls (trace s) @ [0, 1, 2]"
    "fetchAndStoreVacancies (3 + n) W s = fetchAndStoreVacancies 3 W s"
    using three_pages [OF assms] by simp_all
  have refactored:
    "exited (fetchAndStoreVacancies_r 3 W cfg s) \<and> \<not> exited (fetchAndStoreVacancies_r 2 W cfg s)"
    "searchCalls (trace (st (fetchAndStoreVacancies_r 3 W cfg s))) =
       searchCalls (trace s) @ [0, 1, 2]"
    "fetchAndStoreVacancies_r (3 + n) W cfg s = fetchAndStoreVacancies_r 3 W cfg s"
    using three_pages_r [OF assms] by simp_all
  show ?thesis
    using single_file refactored by simp
qed

theorem C5_three_pages_witness:
  "searchEndpoint W_three 0 = Response 200 (Parsed \<lparr>Pages = 3, Items = []\<rparr>)
   \<and> Pages \<lparr>Pages = 3, Items = []\<rparr> = 3
   \<and> searchEndpoint W_three 2 = Response 200 (Parsed \<lparr>Pages = 3, Items = []\<rparr>)
   \<and> exited (fetchAndStoreVacancies 3 W_three state0)
   \<and> \<not> exited (fetchAndStoreVacancies 2 W_three state0)
   \<and> searchCalls (trace (st (fetchAndStoreVacancies 3 W_three state0))) = [0, 1, 2]
   \<and> fetchAndStoreVacancies 8 W_three state0 = fetchAndStoreVacancies 3 W_three state0
   \<and> exited (fetchAndStoreVacancies_r 3 W_three (LoadConfig ''2024-01-01'' ''2024-01-02'' ''token'' ''uri'') state0)
   \<and> searchCalls (trace (st (fetchAndStoreVacancies_r 3 W_three
        (LoadConfig ''2024-01-01'' ''2024-01-02'' ''token'' ''uri'') state0))) = [0, 1, 2]"
  using C5_three_pages [of W_three "\<lparr>Pages = 3, Items = []\<rparr>" "\<lparr>Pages = 3, Items = []\<rparr>"
      state0 5 "LoadConfig ''2024-01-01'' ''2024-01-02'' ''token'' ''uri''"]
  by (simp add: W_three_def mkWorld_def pageOf_def state0_def)


lemma first_page_lost:
  assumes k: "0 < k" and ek: "searchEndpoint W k = Response 200 (Parsed r)"
    and lost: "\<forall>j. 0 \<le> j \<and> j < k \<longrightarrow> pageSkipped (searchEndpoint W j)"
  shows "exited (fetchAndStoreVacancies (nat k + 1) W s)"
    and "\<not> exited (fetchAndStoreVacancies (nat k) W s)"
    and "totalPages (fetchAndStoreVacancies (nat k + 1) W s) = 0"
    and "page (fetchAndStoreVacancies (nat k + 1) W s) = k"
    and "searchCalls (trace (st (fetchAndStoreVacancies (nat k + 1) W s))) =
           searchCalls (trace s) @ [0 .. k]"
    and "fetchAndStoreVacancies (nat k + 1 + n) W s = fetchAndStoreVacancies (nat k + 1) W s"
proof -
  define l0 where "l0 = \<lparr>page = 0, totalPages = 0, exited = False, st = s\<rparr>"
  define lk where "lk = fetchAndStoreVacancies_loop (nat k) W l0"
  define le where "le = fetchAndStoreVacancies_body W lk"
  have "\<forall>j. page l0 \<le> j \<and> j < page l0 + int (nat k) \<longrightarrow> pageSkipped (searchEndpoint W j)"
    using lost k by (simp add: l0_def)
  then have fk: "page lk = k" "totalPages lk = 0" "\<not> exited lk"
    "searchCalls (trace (st lk)) = searchCalls (trace s) @ [0 .. k - 1]"
    using loop_skipped [of l0 "nat k" W] k by (simp_all add: lk_def l0_def)
  have fe: "exited le" "totalPages le = 0" "page le = k"
    using body_served [of W lk r] ek fk k by (simp_all add: le_def)
  have ce: "searchCalls (trace (st le)) = searchCalls (trace s) @ [0 .. k]"
    using fk k by (simp add: le_def body_calls upto_rec2 [of 0 k])
  have "fetchAndStoreVacancies_loop (nat k + 1) W l0 = fetchAndStoreVacancies_loop 1 W lk"
    by (simp only: loop_add lk_def)
  then have runl: "fetchAndStoreVacancies_loop (nat k + 1) W l0 = le"
    using fk by (simp add: le_def)
  have conv: "fetchAndStoreVacancies m W s = fetchAndStoreVacancies_loop m W l0" for m
    by (simp add: fetchAndStoreVacancies_def l0_def)
  have run: "fetchAndStoreVacancies (nat k + 1) W s = le"
    by (simp only: conv runl)
  have "fetchAndStoreVacancies_loop (nat k + 1 + n) W l0 = fetchAndStoreVacancies_loop n W le"
    by (simp only: loop_add [of "nat k + 1" n W l0] runl)
  then have more: "fetchAndStoreVacancies (nat k + 1 + n) W s = le"
    using fe by (simp only: conv loop_exited)
  show "exited (fetchAndStoreVacancies (nat k + 1) W s)" using run fe by simp
  show "\<not> exited (fetchAndStoreVacancies (nat k) W s)"
    using fk by (simp only: conv lk_def [symmetric]) simp
  show "totalPages (fetchAndStoreVacancies (nat k + 1) W s) = 0" using run fe by simp
  show "page (fetchAndStoreVacancies (nat k + 1) W s) = k" using run fe by simp
  show "searchCalls (trace (st (fetchAndStoreVacancies (nat k + 1) W s))) =
          searchCalls (trace s) @ [0 .. k]"
    using run ce by simp
  show "fetchAndStoreVacancies (nat k + 1 + n) W s = fetchAndStoreVacancies (nat k + 1) W s"
    by (simp only: more run)
qed

lemma first_page_lost_r:
  assumes k: "0 < k" and ek: "searchEndpoint W k = Response 200 (Parsed r)"
    and lost: "\<forall>j. 0 \<le> j \<and> j < k \<longrightarrow> pageFailed (searchEndpoint W j)"
  shows "exited (fetchAndStoreVacancies_r (nat k + 1) W cfg s)"
    and "\<not> exited (fetchAndStoreVacancies_r (nat k) W cfg s)"
    and "totalPages (fetchAndStoreVacancies_r (nat k + 1) W cfg s) = 0"
    and "page (fetchAndStoreVacancies_r (nat k + 1) W cfg s) = k"
    and "searchCalls (trace (st (fetchAndStoreVacancies_r (nat k + 1) W cfg s))) =
           searchCalls (trace s) @ [0 .. k]"
    and "fetchAndStoreVacancies_r (nat k + 1 + n) W cfg s =
           fetchAndStoreVacancies_r (nat k + 1) W cfg s"
proof -
  define l0 where "l0 = \<lparr>page = 0, totalPages = 0, exited = False, st = s\<lparr>savedCount := 0\<rparr>\<rparr>"
  define lk where "lk = fetchAndStoreVacancies_r_loop (nat k) W cfg l0"
  define le where "le = fetchAndStoreVacancies_r_body W cfg lk"
  have "\<forall>j. page l0 \<le> j \<and> j < page l0 + int (nat k) \<longrightarrow> pageFailed (searchEndpoint W j)"
    using lost k by (simp add: l0_def)
  then have fk: "page lk = k" "totalPages lk = 0" "\<not> exited lk"
    "searchCalls (trace (st lk)) = searchCalls (trace s) @ [0 .. k - 1]"
    using loop_r_failed [of l0 "nat k" W cfg] k by (simp_all add: lk_def l0_def)
  have fe: "exited le" "totalPages le = 0" "page le = k"
    using body_r_served [of W lk r] ek fk k by (simp_all add: le_def)
  have ce: "searchCalls (trace (st le)) = searchCalls (trace s) @ [0 .. k]"
    using fk k by (simp add: le_def body_r_calls upto_rec2 [of 0 k])
  have "fetchAndStoreVacancies_r_loop (nat k + 1) W cfg l0 =
        fetchAndStoreVacancies_r_loop 1 W cfg lk"
    by (simp only: loop_r_add lk_def)
  then have runl: "fetchAndStoreVacancies_r_loop (nat k + 1) W cfg l0 = le"
    using fk by (simp add: le_def)
  have conv: "fetchAndStoreVacancies_r m W cfg s = fetchAndStoreVacancies_r_loop m W cfg l0" for m
    by (simp add: fetchAndStoreVacancies_r_def l0_def)
  have run: "fetchAndStoreVacancies_r (nat k + 1) W cfg s = le"
    by (simp only: conv runl)
  have "fetchAndStoreVacancies_r_loop (nat k + 1 + n) W cfg l0 =
        fetchAndStoreVacancies_r_loop n W cfg le"
    by (simp only: loop_r_add [of "nat k + 1" n W cfg l0] runl)
  then have more: "fetchAndStoreVacancies_r (nat k + 1 + n) W cfg s = le"
    using fe by (simp only: conv loop_r_exited)
  show "exited (fetchAndStoreVacancies_r (nat k + 1) W cfg s)" using run fe by simp
  show "\<not> exited (fetchAndStoreVacancies_r (nat k) W cfg s)"
    using fk by (simp only: conv lk_def [symmetric]) simp
  show "totalPages (fetchAndStoreVacancies_r (nat k + 1) W cfg s) = 0" using run fe by simp
  show "page (fetchAndStoreVacancies_r (nat k + 1) W cfg s) = k" using run fe by simp
  show "searchCalls (trace (st (fetchAndStoreVacancies_r (nat k + 1) W cfg s))) =
          searchCalls (trace s) @ [0 .. k]"
    using run ce by simp
  show "fetchAndStoreVacancies_r (nat k + 1 + n) W cfg s =
          fetchAndStoreVacancies_r (nat k + 1) W cfg s"
    by (simp only: more run)
qed

text \<open>
  C10. Page 0 fails and a later page \<open>k\<close> is the first to be served, every page before it
  having been lost: \<open>totalPages\<close> is still 0 when page \<open>k\<close> has been handled, the test
  \<open>page \<ge> totalPages - 1\<close> holds, and the loop is left in that very pass, the pass
  \<open>k + 1\<close>, whatever number of pages the reply reports; the searches made are those for the
  pages 0 to \<open>k\<close>, and more passes allowed add none. In the refactored program any failure
  loses a page. In src/main.go a page before \<open>k\<close> is lost to a failure of the request, of
  the transport, of reading or of parsing; a status other than 200 would end the loop there,
  before any later page is asked for.
\<close>

theorem C10_first_page_lost:
  assumes "0 < k" and "searchEndpoint W k = Response 200 (Parsed r)"
  shows "((\<forall>j. 0 \<le> j \<and> j < k \<longrightarrow> pageFailed (searchEndpoint W j)) \<longrightarrow>
            exited (fetchAndStoreVacancies_r (nat k + 1) W cfg s)
          \<and> \<not> exited (fetchAndStoreVacancies_r (nat k) W cfg s)
          \<and> totalPages (fetchAndStoreVacancies_r (nat k + 1) W cfg s) = 0
          \<and> page (fetchAndStoreVacancies_r (nat k + 1) W cfg s) = k
          \<and> searchCalls (trace (st (fetchAndStoreVacancies_r (nat k + 1) W cfg s))) =
              searchCalls (trace s) @ [0 .. k]
          \<and> fetchAndStoreVacancies_r (nat k + 1 + n) W cfg s =
              fetchAndStoreVacancies_r (nat k + 1) W cfg s)
       \<and> ((\<forall>j. 0 \<le> j \<and> j < k \<longrightarrow> pageSkipped (searchEndpoint W j)) \<longrightarrow>
            exited (fetchAndStoreVacancies (nat k + 1) W s)
          \<and> \<not> exited (fetchAndStoreVacancies (nat k) W s)
          \<and> totalPages (fetchAndStoreVacancies (nat k + 1) W s) = 0
          \<and> page (fetchAndStoreVacancies (nat k + 1) W s) = k
          \<and> searchCalls (trace (st (fetchAndStoreVacancies (nat k + 1) W s))) =
              searchCalls (trace s) @ [0 .. k]
          \<and> fetchAndStoreVacancies (nat k + 1 + n) W s =
              fetchAndStoreVacancies (nat k + 1) W s)"
proof (intro conjI impI)
  assume lost: "\<forall>j. 0 \<le> j \<and> j < k \<longrightarrow> pageFailed (searchEndpoint W j)"
  show "exited (fetchAndStoreVacancies_r (nat k + 1) W cfg s)"
    and "\<not> exited (fetchAndStoreVacancies_r (nat k) W cfg s)"
    and "totalPages (fetchAndStoreVacancies_r (nat k + 1) W cfg s) = 0"
    and "page (fetchAndStoreVacancies_r (nat k + 1) W cfg s) = k"
    and "searchCalls (trace (st (fetchAndStoreVacancies_r (nat k + 1) W cfg s))) =
           searchCalls (trace s) @ [0 .. k]"
    and "fetchAndStoreVacancies_r (nat k + 1 + n) W cfg s =
           fetchAndStoreVacancies_r (nat k + 1) W cfg s"
    using first_page_lost_r [OF assms lost] by blast+
next
  assume lost: "\<forall>j. 0 \<le> j \<and> j < k \<longrightarrow> pageSkipped (searchEndpoint W j)"
  show "exited (fetchAndStoreVacancies (nat k + 1) W s)"
    and "\<not> exited (fetchAndStoreVacancies (nat k) W s)"
    and "totalPages (fetchAndStoreVacancies (nat k + 1) W s) = 0"
    and "page (fetchAndStoreVacancies (nat k + 1) W s) = k"
    and "searchCalls (trace (st (fetchAndStoreVacancies (nat k + 1) W s))) =
           searchCalls (trace s) @ [0 .. k]"
    and "fetchAndStoreVacancies (nat k + 1 + n) W s = fetchAndStoreVacancies (nat k + 1) W s"
    using first_page_lost [OF assms lost] by blast+
qed

theorem C10_first_page_lost_witness:
  "(0 :: int) < 1
   \<and> searchEndpoint W_late 1 = Response 200 (Parsed \<lparr>Pages = 4, Items = []\<rparr>)
   \<and> pageFailed (searchEndpoint W_late 0)
   \<and> pageSkipped (searchEndpoint W_late 0)
   \<and> exited (fetchAndStoreVacancies_r 2 W_late (LoadConfig ''2024-01-01'' ''2024-01-02'' ''token'' ''uri'') state0)
   \<and> totalPages (fetchAndStoreVacancies_r 2 W_late (LoadConfig ''2024-01-01'' ''2024-01-02'' ''token'' ''uri'') state0) = 0
   \<and> searchCalls (trace (st (fetchAndStoreVacancies_r 2 W_late
        (LoadConfig ''2024-01-01'' ''2024-01-02'' ''token'' ''uri'') state0))) = [0, 1]
   \<and> fetchAndStoreVacancies_r (2 + 7) W_late (LoadConfig ''2024-01-01'' ''2024-01-02'' ''token'' ''uri'') state0 =
       fetchAndStoreVacancies_r 2 W_late (LoadConfig ''2024-01-01'' ''2024-01-02'' ''token'' ''uri'') state0
   \<and> exited (fetchAndStoreVacancies 2 W_late state0)
   \<and> totalPages (fetchAndStoreVacancies 2 W_late state0) = 0
   \<and> searchCalls (trace (st (fetchAndStoreVacancies 2 W_late state0))) = [0, 1]
   \<and> fetchAndStoreVacancies (2 + 7) W_late state0 = fetchAndStoreVacancies 2 W_late state0"
proof -
  have z: "(0 :: int) < 1" by simp
  have e: "searchEndpoint W_late 1 = Response 200 (Parsed \<lparr>Pages = 4, Items = []\<rparr>)"
    by (simp add: W_late_def mkWorld_def pageOf_def)
  have f: "pageFailed (searchEndpoint W_late 0)" "pageSkipped (searchEndpoint W_late 0)"
    by (simp_all add: W_late_def mkWorld_def pageFailed_def pageSkipped_def)
  have h: "\<forall>j. 0 \<le> j \<and> j < (1 :: int) \<longrightarrow> pageFailed (searchEndpoint W_late j)"
    "\<forall>j. 0 \<le> j \<and> j < (1 :: int) \<longrightarrow> pageSkipped (searchEndpoint W_late j)"
  proof -
    have "j = 0" if "0 \<le> j \<and> j < 1" for j :: int
      using that by arith
    then show "\<forall>j. 0 \<le> j \<and> j < (1 :: int) \<longrightarrow> pageFailed (searchEndpoint W_late j)"
      and "\<forall>j. 0 \<le> j \<and> j < (1 :: int) \<longrightarrow> pageSkipped (searchEndpoint W_late j)"
      using f by blast+
  qed
  have u: "[0 .. 1 :: int] = [0, 1]" "nat 1 + 1 = 2" "searchCalls (trace state0) = []"
    by (simp_all add: upto_rec1 state0_def)
  show ?thesis
    using C10_first_page_lost [OF z e,
        of "LoadConfig ''2024-01-01'' ''2024-01-02'' ''token'' ''uri''" state0 7] h
    by (simp only: u z e f append_Nil simp_thms)
qed

text \<open>
  C3, as it stands: when the search for page 0 fails, no further page is asked for and the
  run ends as a failure. Here the transport fails on page 0: both programs go on to search
  for page 1, are served, leave the loop and return without an error.
\<close>

theorem C3_first_page_failure_counterexample:
  "searchEndpoint W_late 0 = TransportError
   \<and> searchCalls (trace (st (fetchAndStoreVacancies 2 W_late state0))) = [0, 1]
   \<and> exited (fetchAndStoreVacancies 2 W_late state0)
   \<and> searchCalls (trace (st (fetchAndStoreVacancies_r 2 W_late
        (LoadConfig ''2024-01-01'' ''2024-01-02'' ''token'' ''uri'') state0))) = [0, 1]
   \<and> exited (fetchAndStoreVacancies_r 2 W_late
        (LoadConfig ''2024-01-01'' ''2024-01-02'' ''token'' ''uri'') state0)"
  by (simp add: W_late_def mkWorld_def pageOf_def state0_def fetchAndStoreVacancies_def
      fetchAndStoreVacancies_r_def fetchAndStoreVacancies_body_def
      fetchAndStoreVacancies_r_body_def GetVacancyIDs_def VacancyExists_def LoadConfig_def
      Let_def numeral_eq_Suc)

lemma second_page_asked:
  assumes "pageSkipped (searchEndpoint W 0)"
  shows "\<not> exited (fetchAndStoreVacancies 1 W s)"
    and "totalPages (fetchAndStoreVacancies 1 W s) = 0"
    and "page (fetchAndStoreVacancies 1 W s) = 1"
    and "prefix (searchCalls (trace s) @ [0, 1])
           (searchCalls (trace (st (fetchAndStoreVacancies (2 + n) W s))))"
proof -
  define l0 where "l0 = \<lparr>page = 0, totalPages = 0, exited = False, st = s\<rparr>"
  define l1 where "l1 = fetchAndStoreVacancies_body W l0"
  define l2 where "l2 = fetchAndStoreVacancies_body W l1"
  have f1: "page l1 = 1" "totalPages l1 = 0" "\<not> exited l1"
    using body_skipped [of W l0] assms by (simp_all add: l1_def l0_def)
  have run1: "fetchAndStoreVacancies 1 W s = l1"
    by (simp add: fetchAndStoreVacancies_def l1_def l0_def)
  have c2: "searchCalls (trace (st l2)) = searchCalls (trace s) @ [0, 1]"
    using f1 by (simp add: l2_def body_calls) (simp add: l1_def l0_def body_calls)
  have l2eq: "fetchAndStoreVacancies_loop 2 W l0 = l2"
    using f1 by (simp add: numeral_2_eq_2 l1_def [symmetric] l2_def [symmetric]) (simp add: l0_def)
  have conv: "fetchAndStoreVacancies m W s = fetchAndStoreVacancies_loop m W l0" for m
    by (simp add: fetchAndStoreVacancies_def l0_def)
  have "fetchAndStoreVacancies (2 + n) W s = fetchAndStoreVacancies_loop n W l2"
    by (simp only: conv loop_add [of 2 n W l0] l2eq)
  then show "prefix (searchCalls (trace s) @ [0, 1])
           (searchCalls (trace (st (fetchAndStoreVacancies (2 + n) W s))))"
    using loop_calls_prefix [of l2 n W] c2 by simp
  show "\<not> exited (fetchAndStoreVacancies 1 W s)" using run1 f1 by simp
  show "totalPages (fetchAndStoreVacancies 1 W s) = 0" using run1 f1 by simp
  show "page (fetchAndStoreVacancies 1 W s) = 1" using run1 f1 by simp
qed

lemma second_page_asked_r:
  assumes "pageFailed (searchEndpoint W 0)"
  shows "\<not> exited (fetchAndStoreVacancies_r 1 W cfg s)"
    and "totalPages (fetchAndStoreVacancies_r 1 W cfg s) = 0"
    and "page (fetchAndStoreVacancies_r 1 W cfg s) = 1"
    and "prefix (searchCalls (trace s) @ [0, 1])
           (searchCalls (trace (st (fetchAndStoreVacancies_r (2 + n) W cfg s))))"
proof -
  define l0 where "l0 = \<lparr>page = 0, totalPages = 0, exited = False, st = s\<lparr>savedCount := 0\<rparr>\<rparr>"
  define l1 where "l1 = fetchAndStoreVacancies_r_body W cfg l0"
  define l2 where "l2 = fetchAndStoreVacancies_r_body W cfg l1"
  have f1: "page l1 = 1" "totalPages l1 = 0" "\<not> exited l1"
    using body_r_failed [of W l0] assms by (simp_all add: l1_def l0_def)
  have run1: "fetchAndStoreVacancies_r 1 W cfg s = l1"
    by (simp add: fetchAndStoreVacancies_r_def l1_def l0_def)
  have c2: "searchCalls (trace (st l2)) = searchCalls (trace s) @ [0, 1]"
    using f1 by (simp add: l2_def body_r_calls) (simp add: l1_def l0_def body_r_calls)
  have l2eq: "fetchAndStoreVacancies_r_loop 2 W cfg l0 = l2"
    using f1 by (simp add: numeral_2_eq_2 l1_def [symmetric] l2_def [symmetric]) (simp add: l0_def)
  have conv: "fetchAndStoreVacancies_r m W cfg s = fetchAndStoreVacancies_r_loop m W cfg l0" for m
    by (simp add: fetchAndStoreVacancies_r_def l0_def)
  have "fetchAndStoreVacancies_r (2 + n) W cfg s = fetchAndStoreVacancies_r_loop n W cfg l2"
    by (simp only: conv loop_r_add [of 2 n W cfg l0] l2eq)
  then show "prefix (searchCalls (trace s) @ [0, 1])
           (searchCalls (trace (st (fetchAndStoreVacancies_r (2 + n) W cfg s))))"
    using loop_r_calls_prefix [of l2 n W cfg] c2 by simp
  show "\<not> exited (fetchAndStoreVacancies_r 1 W cfg s)" using run1 f1 by simp
  show "totalPages (fetchAndStoreVacancies_r 1 W cfg s) = 0" using run1 f1 by simp
  show "page (fetchAndStoreVacancies_r 1 W cfg s) = 1" using run1 f1 by simp
qed

lemma first_page_refused:
  assumes "searchEndpoint W 0 = Response code b" and "code \<noteq> 200"
  shows "exited (fetchAndStoreVacancies 1 W s)"
    and "totalPages (fetchAndStoreVacancies 1 W s) = 0"
    and "searchCalls (trace (st (fetchAndStoreVacancies (1 + n) W s))) = searchCalls (trace s) @ [0]"
proof -
  define l0 where "l0 = \<lparr>page = 0, totalPages = 0, exited = False, st = s\<rparr>"
  define l1 where "l1 = fetchAndStoreVacancies_body W l0"
  have f1: "exited l1" "totalPages l1 = 0"
    using body_refused [of W l0 code b] assms by (simp_all add: l1_def l0_def)
  have c1: "searchCalls (trace (st l1)) = searchCalls (trace s) @ [0]"
    by (simp add: l1_def body_calls) (simp add: l0_def)
  have run1: "fetchAndStoreVacancies 1 W s = l1"
    by (simp add: fetchAndStoreVacancies_def l1_def l0_def)
  have conv: "fetchAndStoreVacancies m W s = fetchAndStoreVacancies_loop m W l0" for m
    by (simp add: fetchAndStoreVacancies_def l0_def)
  have "fetchAndStoreVacancies_loop 1 W l0 = l1"
    by (simp add: l1_def) (simp add: l0_def)
  then have "fetchAndStoreVacancies (1 + n) W s = fetchAndStoreVacancies_loop n W l1"
    by (simp only: conv loop_add [of 1 n W l0])
  then have "fetchAndStoreVacancies (1 + n) W s = l1"
    using f1 by simp
  then show "searchCalls (trace (st (fetchAndStoreVacancies (1 + n) W s))) =
      searchCalls (trace s) @ [0]"
    using c1 by simp
  show "exited (fetchAndStoreVacancies 1 W s)" using run1 f1 by simp
  show "totalPages (fetchAndStoreVacancies 1 W s) = 0" using run1 f1 by simp
qed

text \<open>
  C3, amended: when the search for page 0 fails, the run is not ended as a failure. The
  refactored program, after any failure, and src/main.go, after a failure of the request, of
  the transport, of reading or of parsing, are still in the loop after the first pass, with
  \<open>totalPages\<close> at 0 and \<open>page\<close> at 1, and the next search is the one for page 1. After a
  status other than 200 on page 0, src/main.go leaves the loop in the first pass, having
  searched for page 0 only, and returns without an error.
\<close>

theorem C3_first_page_failure:
  assumes "pageFailed (searchEndpoint W 0)"
  shows "(\<not> exited (fetchAndStoreVacancies_r 1 W cfg s)
          \<and> totalPages (fetchAndStoreVacancies_r 1 W cfg s) = 0
          \<and> page (fetchAndStoreVacancies_r 1 W cfg s) = 1
          \<and> prefix (searchCalls (trace s) @ [0, 1])
               (searchCalls (trace (st (fetchAndStoreVacancies_r (2 + n) W cfg s)))))
       \<and> (pageSkipped (searchEndpoint W 0) \<longrightarrow>
            \<not> exited (fetchAndStoreVacancies 1 W s)
          \<and> totalPages (fetchAndStoreVacancies 1 W s) = 0
          \<and> page (fetchAndStoreVacancies 1 W s) = 1
          \<and> prefix (searchCalls (trace s) @ [0, 1])
               (searchCalls (trace (st (fetchAndStoreVacancies (2 + n) W s)))))
       \<and> (\<not> pageSkipped (searchEndpoint W 0) \<longrightarrow>
            exited (fetchAndStoreVacancies 1 W s)
          \<and> totalPages (fetchAndStoreVacancies 1 W s) = 0
          \<and> searchCalls (trace (st (fetchAndStoreVacancies (1 + n) W s))) =
              searchCalls (trace s) @ [0])"
proof -
  have r: "\<not> exited (fetchAndStoreVacancies_r 1 W cfg s)
      \<and> totalPages (fetchAndStoreVacancies_r 1 W cfg s) = 0
      \<and> page (fetchAndStoreVacancies_r 1 W cfg s) = 1
      \<and> prefix (searchCalls (trace s) @ [0, 1])
           (searchCalls (trace (st (fetchAndStoreVacancies_r (2 + n) W cfg s))))"
    using second_page_asked_r [OF assms] by blast
  have m: "\<not> exited (fetchAndStoreVacancies 1 W s)
      \<and> totalPages (fetchAndStoreVacancies 1 W s) = 0
      \<and> page (fetchAndStoreVacancies 1 W s) = 1
      \<and> prefix (searchCalls (trace s) @ [0, 1])
           (searchCalls (trace (st (fetchAndStoreVacancies (2 + n) W s))))"
    if "pageSkipped (searchEndpoint W 0)"
    using second_page_asked [OF that] by blast
  have x: "exited (fetchAndStoreVacancies 1 W s)
      \<and> totalPages (fetchAndStoreVacancies 1 W s) = 0
      \<and> searchCalls (trace (st (fetchAndStoreVacancies (1 + n) W s))) =
          searchCalls (trace s) @ [0]"
    if ns: "\<not> pageSkipped (searchEndpoint W 0)"
  proof -
    obtain code b where c: "searchEndpoint W 0 = Response code b" "code \<noteq> 200"
      using assms ns
      by (auto simp add: pageSkipped_def pageFailed_def split: reply.splits body.splits)
    show ?thesis
      using first_page_refused [OF c] by blast
  qed
  show ?thesis
    using r m x by blast
qed

theorem C3_first_page_failure_witness:
  "pageFailed (searchEndpoint W_late 0)
   \<and> pageSkipped (searchEndpoint W_late 0)
   \<and> \<not> exited (fetchAndStoreVacancies_r 1 W_late (LoadConfig ''2024-01-01'' ''2024-01-02'' ''token'' ''uri'') state0)
   \<and> page (fetchAndStoreVacancies_r 1 W_late (LoadConfig ''2024-01-01'' ''2024-01-02'' ''token'' ''uri'') state0) = 1
   \<and> prefix [0, 1] (searchCalls (trace (st (fetchAndStoreVacancies_r 2 W_late
        (LoadConfig ''2024-01-01'' ''2024-01-02'' ''token'' ''uri'') state0))))
   \<and> \<not> exited (fetchAndStoreVacancies 1 W_late state0)
   \<and> page (fetchAndStoreVacancies 1 W_late state0) = 1
   \<and> prefix [0, 1] (searchCalls (trace (st (fetchAndStoreVacancies 2 W_late state0))))
   \<and> pageFailed (searchEndpoint W_refused 0)
   \<and> \<not> pageSkipped (searchEndpoint W_refused 0)
   \<and> exited (fetchAndStoreVacancies 1 W_refused state0)
   \<and> searchCalls (trace (st (fetchAndStoreVacancies 1 W_refused state0))) = [0]"
proof -
  have a: "pageFailed (searchEndpoint W_late 0)" "pageSkipped (searchEndpoint W_late 0)"
    by (simp_all add: W_late_def mkWorld_def pageFailed_def pageSkipped_def)
  have b: "pageFailed (searchEndpoint W_refused 0)" "\<not> pageSkipped (searchEndpoint W_refused 0)"
    by (simp_all add: W_refused_def mkWorld_def pageFailed_def pageSkipped_def)
  show ?thesis
    using C3_first_page_failure [OF a(1),
        of "LoadConfig ''2024-01-01'' ''2024-01-02'' ''token'' ''uri''" state0 0]
      C3_first_page_failure [OF b(1),
        of "LoadConfig ''2024-01-01'' ''2024-01-02'' ''token'' ''uri''" state0 0]
      a b
    by (simp add: state0_def)
qed


section \<open>What a run records, and what it counts\<close>









text \<open>
  In the refactored program the counter is raised only where a document has been accepted by
  the store: across a call of \<open>processVacancy_r\<close>, and so across a page and across a run,
  the counter and the number of documents in the store rise together.
\<close>

lemma processVacancy_r_countsStored: "countsStored s (snd (processVacancy_r W k s))"
  by (auto simp add: processVacancy_r_def UpsertVacancy_def AddDescriptionHash_def
      collectionUpdateOne_def Let_def countsStored_def
      split: sum.splits option.splits)

lemma fetchAndProcessVacancies_countsStored:
  "countsStored s (fetchAndProcessVacancies W ids maxRetries delay s)"
proof (rule fetchAndProcessVacancies_rel)
  show "countsStored a c" if "countsStored a b" "countsStored b c" for a b c
    using that by (simp add: countsStored_def)
qed (simp_all add: processVacancy_r_countsStored, simp_all add: countsStored_def)

lemma body_r_countsStored:
  "countsStored (st l) (st (fetchAndStoreVacancies_r_body W cfg l))"
  using fetchAndProcessVacancies_countsStored
  by (auto simp add: fetchAndStoreVacancies_r_body_def Let_def countsStored_def
      split: sum.splits)

lemma loop_r_countsStored:
  "countsStored (st l) (st (fetchAndStoreVacancies_r_loop n W cfg l))"
proof (induction n arbitrary: l)
  case 0
  show ?case by (simp add: countsStored_def)
next
  case (Suc n)
  show ?case
    using Suc [of "fetchAndStoreVacancies_r_body W cfg l"] body_r_countsStored [of l W cfg]
    by (simp add: countsStored_def)
qed

lemma saved_count_r:
  "savedCount (st (fetchAndStoreVacancies_r n W cfg s)) =
     int (length (collection (st (fetchAndStoreVacancies_r n W cfg s)))) - int (length (collection s))"
  using loop_r_countsStored
    [of "\<lparr>page = 0, totalPages = 0, exited = False, st = s\<lparr>savedCount := 0\<rparr>\<rparr>" n W cfg]
  by (simp add: fetchAndStoreVacancies_r_def countsStored_def)

text \<open>
  C1 at a failing input of src/main.go: one page lists the vacancy 7, whose description has a
  digest that is already known. \<open>processVacancy\<close> skips it as a duplicate and returns
  \<^verbatim>\<open>nil\<close>, and the goroutine counts every \<^verbatim>\<open>nil\<close>: the run ends with the counter at 1
  and nothing sent to the store. The refactored program ends the same run with its counter
  at 0.
\<close>

theorem C1_duplicate_is_counted:
  "trace (st (fetchAndStoreVacancies 1 W_same state_seen)) =
     [SearchPage 0, Log (TotalPagesToFetch 1), Log (ProcessingPage 0 1), FetchDetail ''7'',
      Log (SkippedDuplicate ''7'')]
   \<and> exited (fetchAndStoreVacancies 1 W_same state_seen)
   \<and> collection (st (fetchAndStoreVacancies 1 W_same state_seen)) = []
   \<and> savedCount (st (fetchAndStoreVacancies 1 W_same state_seen)) = 1
   \<and> savedCount (st (fetchAndStoreVacancies_r 1 W_same
        (LoadConfig ''2024-01-01'' ''2024-01-02'' ''token'' ''uri'') state_seen)) = 0"
  by (simp add: W_same_def mkWorld_def pageOf_def vacancy_def digest0_def state0_def
      state_seen_def fetchAndStoreVacancies_def fetchAndStoreVacancies_r_def
      fetchAndStoreVacancies_body_def fetchAndStoreVacancies_r_body_def GetVacancyIDs_def
      GetVacancyDetails_def VacancyExists_def DescriptionHashExists_def MD5Hash_def
      LoadConfig_def processVacancy_def processVacancy_r_def descriptionString_def
      worker.simps worker_r.simps Let_def)

text \<open>
  C2 at two failing inputs. A payload whose description is the empty string: src/main.go
  takes the empty string for a description and stores the vacancy. A payload without a
  description: the refactored program returns an error that its retry loop treats like any
  other, so that with three retries allowed the vacancy is fetched four times, with three
  sleeps, before it is given up. (The same payload in src/main.go is dropped after one
  fetch, and neither program sends it to the store.)
\<close>

theorem C2_invalid_description:
  "trace (worker W_blank ''7'' 0 state0) =
     [FetchDetail ''7'',
      UpdateOne [(''id'', JString ''7''), (''description'', JString ''''),
                 (''description_hash'', JString ''md5:'')],
      Log (StoredSuccessfully ''7'')]
   \<and> length (collection (worker W_blank ''7'' 0 state0)) = 1
   \<and> trace (worker_r W_bare 3 10 ''7'' 0 state0) =
     [FetchDetail ''7'', Log (Retrying ''7'' 1 3 (InvalidDescription ''7'')), Sleep 10,
      FetchDetail ''7'', Log (Retrying ''7'' 2 3 (InvalidDescription ''7'')), Sleep 10,
      FetchDetail ''7'', Log (Retrying ''7'' 3 3 (InvalidDescription ''7'')), Sleep 10,
      FetchDetail ''7'', Log (FailedAfterRetries ''7'' 3 (InvalidDescription ''7''))]
   \<and> detailCalls (worker_r W_bare 3 10 ''7'' 0 state0) = 4
   \<and> collection (worker_r W_bare 3 10 ''7'' 0 state0) = []
   \<and> trace (worker W_bare ''7'' 0 state0) = [FetchDetail ''7'', Log (NoValidDescription ''7'')]
   \<and> collection (worker W_bare ''7'' 0 state0) = []"
  by (simp add: W_blank_def W_bare_def mkWorld_def vacancy_def digest0_def state0_def
      GetVacancyDetails_def DescriptionHashExists_def MD5Hash_def
      processVacancy_def processVacancy_r_def collectionUpdateOne_def descriptionString_def
      worker.simps worker_r.simps Let_def)


section \<open>The worker pool: at most ten fetches at a time\<close>

lemma length_filter_update:
  "i < length xs \<Longrightarrow>
     length (filter P (xs[i := y])) + (if P (xs ! i) then 1 else 0) =
     length (filter P xs) + (if P y then 1 else 0)"
proof (induction xs arbitrary: i)
  case Nil
  then show ?case by simp
next
  case (Cons x xs)
  then show ?case by (cases i) auto
qed

lemma length_filter_mono:
  "(\<And>x. P x \<Longrightarrow> Q x) \<Longrightarrow> length (filter P xs) \<le> length (filter Q xs)"
  by (induction xs) auto

lemma inFlight_le_slotsHeld: "inFlight p \<le> slotsHeld p"
proof -
  have "holding x" if "fetching x" for x
    using that by (cases x rule: fetching.cases) simp_all
  then show ?thesis
    unfolding inFlight_def slotsHeld_def by (rule length_filter_mono)
qed

lemma slotsHeld_setPhase:
  assumes "phaseAt p i = Some ph"
  shows "slotsHeld (setPhase i ph' p) + (if holding (v, ph) then 1 else 0) =
         slotsHeld p + (if holding (v', ph') then 1 else 0)"
proof -
  have i: "i < length (workers p)" and w: "snd (workers p ! i) = ph"
    using assms by (simp_all add: phaseAt_def split: if_splits)
  have h: "holding (a, q) = holding (b, q)" for a b q
    by (cases q) simp_all
  have "holding (workers p ! i) = holding (v, ph)"
    using w h [of "fst (workers p ! i)" ph v] by (metis prod.collapse)
  moreover have "holding (fst (workers p ! i), ph') = holding (v', ph')"
    by (rule h)
  ultimately show ?thesis
    using length_filter_update [OF i, of holding "(fst (workers p ! i), ph')"]
    by (simp add: slotsHeld_def setPhase_def)
qed

lemma sem_setPhase [simp]: "sem (setPhase i ph p) = sem p"
  by (simp add: setPhase_def)

lemma pool_step_slots:
  assumes "pool_step a p = Some p'" and "slotsHeld p = sem p" and "sem p \<le> MaxConcurrency"
  shows "slotsHeld p' = sem p' \<and> sem p' \<le> MaxConcurrency"
proof (cases a)
  case Start
  then show ?thesis
    using assms by (auto simp add: slotsHeld_def split: list.splits)
next
  case (Acquire i)
  then have ph: "phaseAt p i = Some Blocked" and lt: "sem p < MaxConcurrency"
    and p': "p' = (setPhase i (Fetching 0) p)\<lparr>sem := sem p + 1\<rparr>"
    using assms(1) by (auto split: option.splits phase.splits if_splits)
  have "slotsHeld (setPhase i (Fetching 0) p) = slotsHeld p + 1"
    using slotsHeld_setPhase [OF ph, of "Fetching 0" "''''" "''''"] by simp
  then show ?thesis
    using assms(2) lt by (simp add: p' slotsHeld_def)
next
  case (Fail i)
  then obtain r where ph: "phaseAt p i = Some (Fetching r)"
    and p': "p' = setPhase i (Sleeping (r + 1)) p"
    using assms(1) by (auto split: option.splits phase.splits if_splits)
  have "slotsHeld (setPhase i (Sleeping (r + 1)) p) = slotsHeld p"
    using slotsHeld_setPhase [OF ph, of "Sleeping (r + 1)" "''''" "''''"] by simp
  then show ?thesis
    using assms(2,3) by (simp add: p')
next
  case (Wake i)
  then obtain r where ph: "phaseAt p i = Some (Sleeping r)"
    and p': "p' = setPhase i (Fetching r) p"
    using assms(1) by (auto split: option.splits phase.splits if_splits)
  have "slotsHeld (setPhase i (Fetching r) p) = slotsHeld p"
    using slotsHeld_setPhase [OF ph, of "Fetching r" "''''" "''''"] by simp
  then show ?thesis
    using assms(2,3) by (simp add: p')
next
  case (Return i)
  then obtain r where ph: "phaseAt p i = Some (Fetching r)" and pos: "0 < sem p"
    and p': "p' = (setPhase i Finished p)\<lparr>sem := sem p - 1\<rparr>"
    using assms(1) by (auto split: option.splits phase.splits if_splits)
  have "slotsHeld (setPhase i Finished p) + 1 = slotsHeld p"
    using slotsHeld_setPhase [OF ph, of Finished "''''" "''''"] by simp
  then show ?thesis
    using assms(2,3) pos by (simp add: p' slotsHeld_def) linarith
qed

lemma pool_step_r_slots:
  assumes "pool_step_r maxRetries a p = Some p'" and "slotsHeld p = sem p" and "sem p \<le> 10"
  shows "slotsHeld p' = sem p' \<and> sem p' \<le> 10"
proof (cases a)
  case Start
  then show ?thesis
    using assms by (auto simp add: slotsHeld_def split: list.splits if_splits)
next
  case (Acquire i)
  then show ?thesis
    using assms(1) by simp
next
  case (Fail i)
  then obtain r where ph: "phaseAt p i = Some (Fetching r)"
    and p': "p' = setPhase i (Sleeping (r + 1)) p"
    using assms(1) by (auto split: option.splits phase.splits if_splits)
  have "slotsHeld (setPhase i (Sleeping (r + 1)) p) = slotsHeld p"
    using slotsHeld_setPhase [OF ph, of "Sleeping (r + 1)" "''''" "''''"] by simp
  then show ?thesis
    using assms(2,3) by (simp add: p')
next
  case (Wake i)
  then obtain r where ph: "phaseAt p i = Some (Sleeping r)"
    and p': "p' = setPhase i (Fetching r) p"
    using assms(1) by (auto split: option.splits phase.splits if_splits)
  have "slotsHeld (setPhase i (Fetching r) p) = slotsHeld p"
    using slotsHeld_setPhase [OF ph, of "Fetching r" "''''" "''''"] by simp
  then show ?thesis
    using assms(2,3) by (simp add: p')
next
  case (Return i)
  then obtain r where ph: "phaseAt p i = Some (Fetching r)" and pos: "0 < sem p"
    and p': "p' = (setPhase i Finished p)\<lparr>sem := sem p - 1\<rparr>"
    using assms(1) by (auto split: option.splits phase.splits if_splits)
  have "slotsHeld (setPhase i Finished p) + 1 = slotsHeld p"
    using slotsHeld_setPhase [OF ph, of Finished "''''" "''''"] by simp
  then show ?thesis
    using assms(2,3) pos by (simp add: p' slotsHeld_def) linarith
qed

lemma pool_run_slots:
  assumes "pool_run pool_step schedule p = Some p'"
    and "slotsHeld p = sem p" and "sem p \<le> MaxConcurrency"
  shows "slotsHeld p' = sem p' \<and> sem p' \<le> MaxConcurrency"
  using assms
proof (induction schedule arbitrary: p)
  case Nil
  then show ?case by simp
next
  case (Cons a schedule)
  then obtain q where q: "pool_step a p = Some q" "pool_run pool_step schedule q = Some p'"
    by (auto split: option.splits)
  show ?case
    using Cons.IH [OF q(2)] pool_step_slots [OF q(1) Cons.prems(2,3)] by simp
qed

lemma pool_run_r_slots:
  assumes "pool_run (pool_step_r maxRetries) schedule p = Some p'"
    and "slotsHeld p = sem p" and "sem p \<le> 10"
  shows "slotsHeld p' = sem p' \<and> sem p' \<le> 10"
  using assms
proof (induction schedule arbitrary: p)
  case Nil
  then show ?case by simp
next
  case (Cons a schedule)
  then obtain q where q: "pool_step_r maxRetries a p = Some q"
    "pool_run (pool_step_r maxRetries) schedule q = Some p'"
    by (auto split: option.splits)
  show ?case
    using Cons.IH [OF q(2)] pool_step_r_slots [OF q(1) Cons.prems(2,3)] by simp
qed

text \<open>
  C9. However many ids there are and however the steps of the loop and of the goroutines
  are interleaved, in every pool that a schedule leads to from the start the goroutines
  inside a call of \<open>processVacancy\<close> are at most ten (\<open>MaxConcurrency\<close> in src/main.go, the
  capacity 10 written into the refactored program): the goroutines that hold a slot are as
  many as the elements in the channel, and the fetching ones are among them. When ten slots
  are held, no waiting goroutine of src/main.go can pass the semaphore, and the loop of the
  refactored program cannot start the goroutine of the next id.
\<close>

theorem C9_at_most_ten_in_flight:
  "(pool_run pool_step schedule (pool_init ids) = Some p \<longrightarrow>
      inFlight p \<le> MaxConcurrency \<and> inFlight p \<le> 10
      \<and> (slotsHeld p = MaxConcurrency \<longrightarrow> pool_step (Acquire i) p = None))
   \<and> (pool_run (pool_step_r maxRetries) schedule (pool_init ids) = Some p \<longrightarrow>
      inFlight p \<le> 10
      \<and> (slotsHeld p = 10 \<longrightarrow> pool_step_r maxRetries Start p = None))"
proof (intro conjI impI)
  assume r: "pool_run pool_step schedule (pool_init ids) = Some p"
  have s: "slotsHeld p = sem p \<and> sem p \<le> MaxConcurrency"
    using pool_run_slots [OF r] by (simp add: pool_init_def slotsHeld_def)
  then show "inFlight p \<le> MaxConcurrency"
    using inFlight_le_slotsHeld [of p] by simp
  then show "inFlight p \<le> 10"
    by (simp add: MaxConcurrency_def)
  show "pool_step (Acquire i) p = None" if "slotsHeld p = MaxConcurrency"
    using s that by (simp split: option.splits phase.splits)
next
  assume r: "pool_run (pool_step_r maxRetries) schedule (pool_init ids) = Some p"
  have s: "slotsHeld p = sem p \<and> sem p \<le> 10"
    using pool_run_r_slots [OF r] by (simp add: pool_init_def slotsHeld_def)
  then show "inFlight p \<le> 10"
    using inFlight_le_slotsHeld [of p] by simp
  show "pool_step_r maxRetries Start p = None" if "slotsHeld p = 10"
    using s that by (simp split: list.splits)
qed

lemma schedule12_runs: "pool_run pool_step schedule12 (pool_init twelve) = Some pool12"
  by (simp add: schedule12_def pool_init_def twelve_def pool12_def phaseAt_def setPhase_def
      MaxConcurrency_def upt_rec numeral_eq_Suc)

lemma schedule12_r_runs:
  "pool_run (pool_step_r 3) schedule12_r (pool_init twelve) = Some pool12_r"
  by (simp add: schedule12_r_def pool_init_def twelve_def pool12_r_def numeral_eq_Suc)

theorem C9_at_most_ten_in_flight_witness:
  "pool_run pool_step schedule12 (pool_init twelve) = Some pool12
   \<and> inFlight pool12 = 10
   \<and> inFlight pool12 \<le> MaxConcurrency
   \<and> slotsHeld pool12 = MaxConcurrency
   \<and> pool_step (Acquire 10) pool12 = None
   \<and> pool_run (pool_step_r 3) schedule12_r (pool_init twelve) = Some pool12_r
   \<and> inFlight pool12_r = 10
   \<and> slotsHeld pool12_r = 10
   \<and> pool_step_r 3 Start pool12_r = None"
proof -
  have a: "inFlight pool12 = 10" "slotsHeld pool12 = MaxConcurrency"
    by (simp_all add: inFlight_def slotsHeld_def pool12_def twelve_def MaxConcurrency_def)
  have b: "inFlight pool12_r = 10" "slotsHeld pool12_r = 10"
    by (simp_all add: inFlight_def slotsHeld_def pool12_r_def twelve_def)
  show ?thesis
    using C9_at_most_ten_in_flight [of schedule12 twelve pool12 10 3]
      C9_at_most_ten_in_flight [of schedule12_r twelve pool12_r 10 3]
      schedule12_runs schedule12_r_runs a b
    by simp
qed


end
